theory Spec2Isabelle
  imports
    Main
    "HOL-Library.AList"
    "HOL-Library.Char_ord"
    "HOL-Library.List_Lexorder"
begin

section \<open>Strings, sorting and searching\<close>

text \<open>
  Go compares strings byte by byte; \<open>string\<close> is a list of bytes, ordered
  lexicographically by the byte values (Char\_ord, List\_Lexorder).

  \<open>sort.Strings\<close> sorts a slice in increasing order; on a total order the sorted
  slice is unique, so the library's \<open>sort\<close> computes it.

  \<open>sort.Search n f\<close> is the binary search of the Go library:
  \<^verbatim>\<open>
  i, j := 0, n
  for i < j {
      h := int(uint(i+j) >> 1)
      if !f(h) { i = h + 1 } else { j = h }
  }
  return i
  \<close>
  and \<open>sort.SearchStrings a x\<close> is \<open>Search(len(a), a[i] >= x)\<close>. It reads
  \<open>a[h]\<close> only for \<open>h < len(a)\<close>.
\<close>

function Search :: "nat \<Rightarrow> nat \<Rightarrow> (nat \<Rightarrow> bool) \<Rightarrow> nat" where
  "Search i j f =
     (if i < j
      then (let h = (i + j) div 2
            in if \<not> f h then Search (h + 1) j f else Search i h f)
      else i)"
  by pat_completeness auto
termination
  by (relation "measure (\<lambda>(i, j, f). j - i)") auto

declare Search.simps [simp del]

definition SearchStrings :: "string list \<Rightarrow> string \<Rightarrow> nat" where
  "SearchStrings a x = Search 0 (length a) (\<lambda>i. x \<le> a ! i)"

text \<open>
  The membership test both plugins' callers write after the search:
  \<^verbatim>\<open>idx < len(a) && a[idx] == x\<close>.
\<close>

definition found :: "string list \<Rightarrow> string \<Rightarrow> bool" where
  "found a x = (let idx = SearchStrings a x in idx < length a \<and> a ! idx = x)"

text \<open>
  \<open>strings.LastIndex s "-"\<close>: the index of the last occurrence of the separator,
  or \<open>-1\<close>.
\<close>

fun LastIndex :: "string \<Rightarrow> char \<Rightarrow> int" where
  "LastIndex [] c = - 1"
| "LastIndex (x # xs) c =
     (let r = LastIndex xs c
      in if 0 \<le> r then r + 1 else if x = c then 0 else - 1)"

section \<open>The cassandra plugin: configuration and keyspace filter\<close>

type_synonym path = "string list"

text \<open>
  A path is kept as the list of its components below the root. \<open>filepath.Join\<close>
  appends one element and cleans the result: an empty element and \<open>.\<close> add
  nothing, \<open>..\<close> steps back to the parent. The elements joined by the plugins are
  directory entry names and fixed names, which hold no separator.
\<close>

definition Join :: "path \<Rightarrow> string \<Rightarrow> path" where
  "Join dir elem =
     (if elem = '''' \<or> elem = ''.'' then dir
      else if elem = ''..'' then butlast dir
      else dir @ [elem])"

definition DefaultExcludeKeyspaces :: "string list" where
  "DefaultExcludeKeyspaces =
     [''system_schema'', ''system_distributed'', ''system_auth'', ''system'', ''system_traces'']"

definition SnapshotName :: string where
  "SnapshotName = ''shield-backup''"

definition baseDir :: path where
  "baseDir = [''var'', ''vcap'', ''store'', ''shield'', ''cassandra'']"

text \<open>
  \<open>CassandraInfo\<close>, the struct \<open>cassandraInfo\<close> fills from the endpoint. A Go
  slice that may be \<open>nil\<close> is an option: \<open>IncludeKeyspaces\<close> is \<open>None\<close> when
  the endpoint has no \<open>cassandra_include_keyspaces\<close>.
\<close>

record CassandraInfo =
  Host :: string
  Port :: string
  User :: string
  Password :: string
  IncludeKeyspaces :: "string list option"
  ExcludeKeyspaces :: "string list"
  BinDir :: string
  DataDir :: path
  Tar :: string

text \<open>
  Lines 301 to 313 of \<open>Backup\<close>:
  \<^verbatim>\<open>
  var savedKeyspaces []string
  if cassandra.IncludeKeyspaces != nil {
      sort.Strings(cassandra.ExcludeKeyspaces)
      savedKeyspaces = []string{}
      for _, keyspace := range cassandra.IncludeKeyspaces {
          idx := sort.SearchStrings(cassandra.ExcludeKeyspaces, keyspace)
          if idx < len(cassandra.ExcludeKeyspaces) && cassandra.ExcludeKeyspaces[idx] == keyspace {
              continue
          }
          append(savedKeyspaces, keyspace)
      }
  }
  sort.Strings(savedKeyspaces)
  \<close>
  The loop evaluates \<open>append(savedKeyspaces, keyspace)\<close> and drops the slice it
  returns: \<open>savedKeyspaces\<close> is not assigned in the loop.
\<close>

fun includeLoop :: "string list \<Rightarrow> string list \<Rightarrow> string list \<Rightarrow> string list" where
  "includeLoop excl [] savedKeyspaces = savedKeyspaces"
| "includeLoop excl (keyspace # rest) savedKeyspaces =
     (if found excl keyspace then includeLoop excl rest savedKeyspaces
      else (let appended = savedKeyspaces @ [keyspace]
            in includeLoop excl rest savedKeyspaces))"

text \<open>
  The result is the configuration (its exclude list sorted in place when an include
  list is present) and \<open>savedKeyspaces\<close>.
\<close>

definition resolveKeyspaces :: "CassandraInfo \<Rightarrow> CassandraInfo \<times> string list option" where
  "resolveKeyspaces cassandra =
     (case IncludeKeyspaces cassandra of
        None \<Rightarrow> (cassandra, None)
      | Some incl \<Rightarrow>
          (let cassandra' = cassandra\<lparr>ExcludeKeyspaces := sort (ExcludeKeyspaces cassandra)\<rparr>
           in (cassandra', Some (sort (includeLoop (ExcludeKeyspaces cassandra') incl [])))))"

text \<open>
  Lines 404 to 416 of \<open>Backup\<close> (and 597 to 609 of \<open>Restore\<close>): whether the
  traversal keeps a keyspace directory.
\<close>

definition keyspaceSelected :: "string list option \<Rightarrow> string list \<Rightarrow> string \<Rightarrow> bool" where
  "keyspaceSelected savedKeyspaces excl keyspace =
     (case savedKeyspaces of
        None \<Rightarrow> \<not> found excl keyspace
      | Some saved \<Rightarrow> found saved keyspace)"

text \<open>Lines 480 to 483 of \<open>hardLinkKeyspace\<close>: the staged name of a table directory.\<close>

definition tableName :: "string \<Rightarrow> string" where
  "tableName name =
     (let idx = LastIndex name (CHR ''-'')
      in if 0 \<le> idx then take (nat idx) name else name)"

section \<open>The file system and the outside world\<close>

text \<open>
  Both plugins act on the file system, through the \<open>os\<close> package and through shell
  commands. The file system is a tree; an owner is a uid and a gid. A regular file
  carries its inode number, so that a hard link is a second entry with the same number. A
  symbolic link carries the path it points to, which may be that of another link
  (\<open>None\<close> when it points to nothing in the tree). Paths name entries as they are
  spelled: the directories a path runs through are directories, not links.

  The owner is kept with the entry, so a change of owner through one hard link does not
  show at the other entries of the inode. The properties below that speak of owners are
  about a walk that gives every entry the same owner; an owner that reaches a further
  entry through its inode is that same owner.
\<close>

type_synonym owner = "nat \<times> nat"

datatype node =
    File owner nat
  | Symlink owner "path option"
  | Dir owner "(string \<times> node) list"

fun IsDir :: "node \<Rightarrow> bool" where
  "IsDir (Dir ow es) = True"
| "IsDir n = False"

fun owner_of :: "node \<Rightarrow> owner" where
  "owner_of (File ow i) = ow"
| "owner_of (Symlink ow tgt) = ow"
| "owner_of (Dir ow es) = ow"

fun with_owner :: "owner \<Rightarrow> node \<Rightarrow> node" where
  "with_owner ow (File ow' i) = File ow i"
| "with_owner ow (Symlink ow' tgt) = Symlink ow tgt"
| "with_owner ow (Dir ow' es) = Dir ow es"

fun entries_of :: "node \<Rightarrow> (string \<times> node) list" where
  "entries_of (Dir ow es) = es"
| "entries_of n = []"

text \<open>\<open>lookup\<close> is what \<open>lstat\<close> sees at a path.\<close>

fun lookup :: "node \<Rightarrow> path \<Rightarrow> node option" where
  "lookup t [] = Some t"
| "lookup t (c # cs) =
     (case t of
        Dir ow es \<Rightarrow> (case map_of es c of None \<Rightarrow> None | Some m \<Rightarrow> lookup m cs)
      | _ \<Rightarrow> None)"

definition store :: "string \<Rightarrow> node option \<Rightarrow> (string \<times> node) list \<Rightarrow> (string \<times> node) list" where
  "store c x es = (case x of None \<Rightarrow> AList.delete c es | Some m \<Rightarrow> AList.update c m es)"

text \<open>
  \<open>alter p f\<close> replaces what stands at \<open>p\<close> by \<open>f\<close> of it (\<open>None\<close>: no
  entry); nothing changes when the parent of \<open>p\<close> is not a directory.
\<close>

fun alter :: "path \<Rightarrow> (node option \<Rightarrow> node option) \<Rightarrow> node option \<Rightarrow> node option" where
  "alter [] f x = f x"
| "alter (c # cs) f x =
     (case x of
        Some (Dir ow es) \<Rightarrow> Some (Dir ow (store c (alter cs f (map_of es c)) es))
      | _ \<Rightarrow> x)"

definition alter_fs :: "path \<Rightarrow> (node option \<Rightarrow> node option) \<Rightarrow> node \<Rightarrow> node" where
  "alter_fs p f t = (case alter p f (Some t) of None \<Rightarrow> t | Some t' \<Rightarrow> t')"

definition put :: "path \<Rightarrow> node \<Rightarrow> node \<Rightarrow> node" where
  "put p n t = alter_fs p (\<lambda>x. Some n) t"

definition removeTree :: "path \<Rightarrow> node \<Rightarrow> node" where
  "removeTree p t = alter_fs p (\<lambda>x. None) t"

definition set_owner :: "path \<Rightarrow> owner \<Rightarrow> node \<Rightarrow> node" where
  "set_owner p ow t = alter_fs p (map_option (with_owner ow)) t"

text \<open>The paths below a node, itself first, the entries of a directory by name.\<close>

fun subpaths :: "node \<Rightarrow> path list" where
  "subpaths (Dir ow es) =
     [] # concat (map (\<lambda>e. map ((#) (fst e)) (subpaths (snd e))) (sort_key fst es))"
| "subpaths n = [[]]"

fun chownR :: "owner \<Rightarrow> node \<Rightarrow> node" where
  "chownR ow (Dir ow' es) = Dir ow (map (\<lambda>e. (fst e, chownR ow (snd e))) es)"
| "chownR ow n = with_owner ow n"

fun mkdirAll :: "owner \<Rightarrow> path \<Rightarrow> path \<Rightarrow> node \<Rightarrow> path + node" where
  "mkdirAll ow made [] t = Inr t"
| "mkdirAll ow made (c # cs) t =
     (let p = made @ [c]
      in case lookup t p of
           Some n \<Rightarrow> if IsDir n then mkdirAll ow p cs t else Inl p
         | None \<Rightarrow> mkdirAll ow p cs (put p (Dir ow []) t))"

text \<open>
  The shell commands the plugins run through \<open>plugin.Exec\<close> and
  \<open>plugin.ExecWithOptions\<close>, by what varies in their command lines:
  \<^item> \<open>NodetoolClearSnapshot bindir\<close>: \<^verbatim>\<open>{bindir}/nodetool clearsnapshot -t shield-backup\<close>
  \<^item> \<open>NodetoolSnapshot bindir keyspaces\<close>: \<^verbatim>\<open>{bindir}/nodetool snapshot -t shield-backup\<close>,
    followed by the keyspaces, each in double quotes
  \<^item> \<open>RmRf p\<close>: \<^verbatim>\<open>rm -rf "{p}"\<close>
  \<^item> \<open>ChownR p\<close>: \<^verbatim>\<open>chown -R vcap:vcap "{p}"\<close>
  \<^item> \<open>TarCreate tar p\<close>: \<^verbatim>\<open>{tar} -c -C {p} -f - .\<close>
  \<^item> \<open>TarExtract tar p\<close>: \<^verbatim>\<open>{tar} -x -C {p} -f -\<close>
  \<^item> \<open>SSTableLoader bindir user password host p\<close>:
    \<^verbatim>\<open>{bindir}/sstableloader -u "{user}" -pw "{password}" -d "{host}" "{p}"\<close>
  \<^item> \<open>PsGrepMysqld\<close>: \<^verbatim>\<open>ps -efw | grep -F mysqld | grep -vE 'grep|mysqld_'\<close>, in \<open>bash -c\<close>
  \<^item> \<open>MkdirP p\<close>: \<^verbatim>\<open>mkdir -p {p}\<close>
  \<^item> \<open>XtrabackupPrepare bin p\<close>: \<^verbatim>\<open>{bin} --prepare --target-dir={p}\<close>
  \<^item> \<open>XtrabackupMoveBack bin p d\<close>: \<^verbatim>\<open>{bin} --move-back --target-dir={p} --datadir={d}\<close>
\<close>

datatype command =
    NodetoolClearSnapshot string
  | NodetoolSnapshot string "string list"
  | RmRf path
  | ChownR path
  | TarCreate string path
  | TarExtract string path
  | SSTableLoader string string string string path
  | PsGrepMysqld
  | MkdirP path
  | XtrabackupPrepare string path
  | XtrabackupMoveBack string path path

datatype call =
    Exec command
  | Lstat path
  | Open path
  | Readdir path
  | Mkdir path
  | MkdirAll path
  | Link path path
  | RemoveAll path
  | Remove path
  | Glob path
  | Chown path nat nat

text \<open>
  A Go \<open>error\<close>. \<open>Failed c\<close> is a failure the file system tree does not explain:
  a permission, an exit status outside the expected ones, a command that cannot start.
\<close>

datatype error =
    Failed call
  | NotExist path
  | Exist path
  | NotDirectory path
  | NotPermitted path
  | NotEmpty path
  | TooManyLinks path
  | DataDirNotADirectory
  | EndpointError string

type_synonym 'a result = "error + 'a"

text \<open>
  The world of a run: the file system, and the trace of the calls made so far, each
  with whether it succeeded.
\<close>

record world =
  fs :: node
  trace :: "(call \<times> bool) list"

definition start :: "node \<Rightarrow> world" where
  "start t = \<lparr>fs = t, trace = []\<rparr>"

text \<open>
  What a run cannot know beforehand: which calls fail for an outside reason (by their
  position in the trace), whether a \<open>mysqld\<close> process runs, the owners of the
  process and of \<open>vcap\<close>, the data directory the store itself uses, the files the
  store links into a snapshot, the entries of the archive on standard input, and what
  \<open>xtrabackup\<close> does to the tree. A command that fails leaves the tree as it was.
\<close>

record env =
  fails_at :: "nat \<Rightarrow> bool"
  mysqld_running :: bool
  process_owner :: owner
  vcap_owner :: owner
  store_data :: path
  snapshot_result :: "node \<Rightarrow> node"
  stdin_archive :: "(string \<times> node) list"
  prepare_result :: "node \<Rightarrow> node"
  move_back_result :: "node \<Rightarrow> node"

definition perform ::
  "env \<Rightarrow> call \<Rightarrow> (node \<Rightarrow> error + 'a \<times> node) \<Rightarrow> world \<Rightarrow> 'a result \<times> world" where
  "perform e c sem w =
     (if fails_at e (length (trace w))
      then (Inl (Failed c), w\<lparr>trace := trace w @ [(c, False)]\<rparr>)
      else (case sem (fs w) of
              Inl err \<Rightarrow> (Inl err, w\<lparr>trace := trace w @ [(c, False)]\<rparr>)
            | Inr (a, t) \<Rightarrow> (Inr a, \<lparr>fs = t, trace = trace w @ [(c, True)]\<rparr>)))"

subsection \<open>Control flow\<close>

definition succeed :: "'a \<Rightarrow> world \<Rightarrow> 'a result \<times> world" where
  "succeed a w = (Inr a, w)"

definition failWith :: "error \<Rightarrow> world \<Rightarrow> 'a result \<times> world" where
  "failWith err w = (Inl err, w)"

text \<open>\<open>x, err := m; if err != nil { return err }; k x\<close>\<close>

definition andThen ::
  "(world \<Rightarrow> 'a result \<times> world) \<Rightarrow> ('a \<Rightarrow> world \<Rightarrow> 'b result \<times> world) \<Rightarrow>
   world \<Rightarrow> 'b result \<times> world" where
  "andThen m k w = (case m w of (Inl err, w1) \<Rightarrow> (Inl err, w1) | (Inr a, w1) \<Rightarrow> k a w1)"

text \<open>
  \<open>defer cleanup(); body\<close>: the cleanup runs when the body returns, whatever it
  returns, and its own error is printed, not returned.
\<close>

definition deferred ::
  "(world \<Rightarrow> 'b result \<times> world) \<Rightarrow> (world \<Rightarrow> 'a result \<times> world) \<Rightarrow>
   world \<Rightarrow> 'a result \<times> world" where
  "deferred cleanup body w = (case body w of (r, w1) \<Rightarrow> (r, snd (cleanup w1)))"

text \<open>
  \<open>for _, x := range xs { body }\<close>, where the body returns an error to leave the
  function and succeeds to go on (\<open>continue\<close> included).
\<close>

fun forEach ::
  "('x \<Rightarrow> world \<Rightarrow> unit result \<times> world) \<Rightarrow> 'x list \<Rightarrow> world \<Rightarrow> unit result \<times> world" where
  "forEach body [] w = (Inr (), w)"
| "forEach body (x # xs) w =
     (case body x w of (Inl err, w1) \<Rightarrow> (Inl err, w1) | (Inr u, w1) \<Rightarrow> forEach body xs w1)"

text \<open>The variable \<open>err\<close> after a call, and \<open>return err\<close>.\<close>

fun errOf :: "'a result \<Rightarrow> error option" where
  "errOf (Inl err) = Some err"
| "errOf (Inr a) = None"

definition returnErr :: "error option \<Rightarrow> world \<Rightarrow> unit result \<times> world" where
  "returnErr err w = (case err of None \<Rightarrow> (Inr (), w) | Some e \<Rightarrow> (Inl e, w))"

fun IsNotExist :: "error \<Rightarrow> bool" where
  "IsNotExist (NotExist p) = True"
| "IsNotExist err = False"

subsection \<open>The calls\<close>

text \<open>
  \<open>nodetool clearsnapshot -t shield-backup\<close> removes the snapshot directory of
  that name from every table directory of the store's data directory.
\<close>

definition snapshotDirs :: "path \<Rightarrow> node \<Rightarrow> path list" where
  "snapshotDirs dataDir t =
     concat (map (\<lambda>ks. map (\<lambda>tb. dataDir @ [fst ks, fst tb, ''snapshots'', SnapshotName])
                            (entries_of (snd ks)))
                 (case lookup t dataDir of None \<Rightarrow> [] | Some d \<Rightarrow> entries_of d))"

definition clearSnapshots :: "path \<Rightarrow> node \<Rightarrow> node" where
  "clearSnapshots dataDir t = fold removeTree (snapshotDirs dataDir t) t"

fun unpack :: "(string \<times> node) list \<Rightarrow> node \<Rightarrow> node" where
  "unpack archive (Dir ow es) = Dir ow (fold (\<lambda>e. AList.update (fst e) (snd e)) archive es)"
| "unpack archive n = n"

fun exec_effect :: "env \<Rightarrow> command \<Rightarrow> node \<Rightarrow> node" where
  "exec_effect e (NodetoolClearSnapshot bindir) t = clearSnapshots (store_data e) t"
| "exec_effect e (NodetoolSnapshot bindir keyspaces) t = snapshot_result e t"
| "exec_effect e (RmRf p) t = removeTree p t"
| "exec_effect e (ChownR p) t = alter_fs p (map_option (chownR (vcap_owner e))) t"
| "exec_effect e (TarCreate tar p) t = t"
| "exec_effect e (TarExtract tar p) t = alter_fs p (map_option (unpack (stdin_archive e))) t"
| "exec_effect e (SSTableLoader bindir user password host p) t = t"
| "exec_effect e PsGrepMysqld t = t"
| "exec_effect e (MkdirP p) t =
     (case mkdirAll (process_owner e) [] p t of Inl q \<Rightarrow> t | Inr t' \<Rightarrow> t')"
| "exec_effect e (XtrabackupPrepare bin p) t = prepare_result e t"
| "exec_effect e (XtrabackupMoveBack bin p d) t = move_back_result e t"

text \<open>
  \<open>plugin.Exec\<close> returns an error when the command does not exit with status 0;
  the process search exits with status 0 when it finds a \<open>mysqld\<close> process.
\<close>

definition plugin_Exec :: "env \<Rightarrow> command \<Rightarrow> world \<Rightarrow> unit result \<times> world" where
  "plugin_Exec e c =
     perform e (Exec c)
       (\<lambda>t. if c = PsGrepMysqld \<and> \<not> mysqld_running e then Inl (Failed (Exec c))
            else Inr ((), exec_effect e c t))"

definition os_Lstat :: "env \<Rightarrow> path \<Rightarrow> world \<Rightarrow> node result \<times> world" where
  "os_Lstat e p =
     perform e (Lstat p)
       (\<lambda>t. case lookup t p of None \<Rightarrow> Inl (NotExist p) | Some n \<Rightarrow> Inr (n, t))"

definition os_Open :: "env \<Rightarrow> path \<Rightarrow> world \<Rightarrow> unit result \<times> world" where
  "os_Open e p =
     perform e (Open p)
       (\<lambda>t. case lookup t p of None \<Rightarrow> Inl (NotExist p) | Some n \<Rightarrow> Inr ((), t))"

text \<open>\<open>dir.Readdir(-1)\<close>: the entries of the directory, in directory order.\<close>

definition Readdir_all :: "env \<Rightarrow> path \<Rightarrow> world \<Rightarrow> (string \<times> node) list result \<times> world" where
  "Readdir_all e p =
     perform e (Readdir p)
       (\<lambda>t. case lookup t p of
              None \<Rightarrow> Inl (NotExist p)
            | Some n \<Rightarrow> if IsDir n then Inr (entries_of n, t) else Inl (NotDirectory p))"

definition os_Mkdir :: "env \<Rightarrow> path \<Rightarrow> world \<Rightarrow> unit result \<times> world" where
  "os_Mkdir e p =
     perform e (Mkdir p)
       (\<lambda>t. case lookup t p of
              Some n \<Rightarrow> Inl (Exist p)
            | None \<Rightarrow>
                (case lookup t (butlast p) of
                   None \<Rightarrow> Inl (NotExist p)
                 | Some d \<Rightarrow>
                     if IsDir d then Inr ((), put p (Dir (process_owner e) []) t)
                     else Inl (NotDirectory p)))"

text \<open>
  \<open>os.MkdirAll\<close> creates the directory and the parents it lacks; a directory that
  is there already is no error, an entry on the way that is no directory is one.
\<close>

definition os_MkdirAll :: "env \<Rightarrow> path \<Rightarrow> world \<Rightarrow> unit result \<times> world" where
  "os_MkdirAll e p =
     perform e (MkdirAll p)
       (\<lambda>t. case mkdirAll (process_owner e) [] p t of
              Inl q \<Rightarrow> Inl (NotDirectory q)
            | Inr t' \<Rightarrow> Inr ((), t'))"

text \<open>
  \<open>os.Link\<close> makes a new entry for what stands at the old path, without following
  a symbolic link there; it refuses a directory and an existing new path.
\<close>

definition os_Link :: "env \<Rightarrow> path \<Rightarrow> path \<Rightarrow> world \<Rightarrow> unit result \<times> world" where
  "os_Link e src dst =
     perform e (Link src dst)
       (\<lambda>t. case lookup t src of
              None \<Rightarrow> Inl (NotExist src)
            | Some n \<Rightarrow>
                if IsDir n then Inl (NotPermitted src)
                else (case lookup t dst of
                        Some m \<Rightarrow> Inl (Exist dst)
                      | None \<Rightarrow>
                          (case lookup t (butlast dst) of
                             None \<Rightarrow> Inl (NotExist dst)
                           | Some d \<Rightarrow>
                               if IsDir d then Inr ((), put dst n t)
                               else Inl (NotDirectory dst))))"

definition os_RemoveAll :: "env \<Rightarrow> path \<Rightarrow> world \<Rightarrow> unit result \<times> world" where
  "os_RemoveAll e p = perform e (RemoveAll p) (\<lambda>t. Inr ((), removeTree p t))"

definition os_Remove :: "env \<Rightarrow> path \<Rightarrow> world \<Rightarrow> unit result \<times> world" where
  "os_Remove e p =
     perform e (Remove p)
       (\<lambda>t. case lookup t p of
              None \<Rightarrow> Inl (NotExist p)
            | Some n \<Rightarrow> if entries_of n = [] then Inr ((), removeTree p t) else Inl (NotEmpty p))"

text \<open>
  \<open>filepath.Glob(dir + "/*")\<close>: the paths of the entries of the directory, sorted
  by name (none when the directory cannot be read).
\<close>

definition filepath_Glob :: "env \<Rightarrow> path \<Rightarrow> world \<Rightarrow> path list result \<times> world" where
  "filepath_Glob e dir =
     perform e (Glob dir)
       (\<lambda>t. Inr (map (\<lambda>x. dir @ [fst x])
                     (sort_key fst (case lookup t dir of None \<Rightarrow> [] | Some d \<Rightarrow> entries_of d)), t))"

text \<open>
  \<open>syscall.Chown\<close> is the system call \<open>chown\<close>, which follows symbolic links:
  from the entry at the path it goes from link to link until it stands at an entry that is
  no link, and that entry is the one whose owner it changes. It fails when a link on the
  way leads to no entry, and when more than 40 links would have to be followed (the limit
  of Linux). \<open>follow k t p q\<close> is the entry reached from \<open>q\<close> when \<open>k\<close> more
  links may be followed; \<open>p\<close> is the path of the call, for the error.
\<close>

fun follow :: "nat \<Rightarrow> node \<Rightarrow> path \<Rightarrow> path \<Rightarrow> error + path" where
  "follow 0 t p q =
     (case lookup t q of
        None \<Rightarrow> Inl (NotExist p)
      | Some (Symlink ow tgt) \<Rightarrow> Inl (TooManyLinks p)
      | Some n \<Rightarrow> Inr q)"
| "follow (Suc k) t p q =
     (case lookup t q of
        None \<Rightarrow> Inl (NotExist p)
      | Some (Symlink ow tgt) \<Rightarrow>
          (case tgt of None \<Rightarrow> Inl (NotExist p) | Some q' \<Rightarrow> follow k t p q')
      | Some n \<Rightarrow> Inr q)"

definition chownTarget :: "node \<Rightarrow> path \<Rightarrow> error + path" where
  "chownTarget t p = follow 40 t p p"

definition syscall_Chown :: "env \<Rightarrow> path \<Rightarrow> nat \<Rightarrow> nat \<Rightarrow> world \<Rightarrow> unit result \<times> world" where
  "syscall_Chown e p uid gid =
     perform e (Chown p uid gid)
       (\<lambda>t. case chownTarget t p of
              Inl err \<Rightarrow> Inl err
            | Inr q \<Rightarrow> Inr ((), set_owner q (uid, gid) t))"

text \<open>
  \<open>filepath.Walk root fn\<close> calls \<open>fn\<close> on the root and on every entry below it,
  a directory before its entries, these by name, and does not follow symbolic links; it
  stops at the first error \<open>fn\<close> returns. When the root cannot be read, \<open>fn\<close> is
  called once, with the error. The only \<open>fn\<close> here changes owners, never the shape
  of the tree, so the paths are those of the tree at the start of the walk.
\<close>

definition filepath_Walk ::
  "path \<Rightarrow> (path \<Rightarrow> error option \<Rightarrow> world \<Rightarrow> unit result \<times> world) \<Rightarrow>
   world \<Rightarrow> unit result \<times> world" where
  "filepath_Walk root fn w =
     (case lookup (fs w) root of
        None \<Rightarrow> fn root (Some (NotExist root)) w
      | Some n \<Rightarrow> forEach (\<lambda>p. fn p None) (map ((@) root) (subpaths n)) w)"

section \<open>The cassandra plugin: backup and restore\<close>

text \<open>
  \<open>hardLinkAll\<close>, lines 502 to 530. A deferred \<open>dir.Close()\<close> changes nothing
  and is left out, here and below; so are the messages written to standard error.
\<close>

definition hardLinkAll :: "env \<Rightarrow> path \<Rightarrow> path \<Rightarrow> world \<Rightarrow> unit result \<times> world" where
  "hardLinkAll e srcDir dstDir =
     andThen (os_Open e srcDir) (\<lambda>dir.
     andThen (Readdir_all e srcDir) (\<lambda>entries.
     forEach (\<lambda>tableDirInfo.
       if IsDir (snd tableDirInfo) then succeed ()
       else os_Link e (Join srcDir (fst tableDirInfo)) (Join dstDir (fst tableDirInfo)))
       entries))"

text \<open>
  The body of the loop of \<open>hardLinkKeyspace\<close>, lines 467 to 497: an entry that is
  no directory is skipped, and so is a table directory without a snapshot directory.
\<close>

definition hardLinkTable ::
  "env \<Rightarrow> path \<Rightarrow> path \<Rightarrow> string \<times> node \<Rightarrow> world \<Rightarrow> unit result \<times> world" where
  "hardLinkTable e srcKeyspaceDir tmpKeyspaceDir tableDirInfo w =
     (if \<not> IsDir (snd tableDirInfo) then succeed () w
      else
        (let srcDir = Join (Join (Join srcKeyspaceDir (fst tableDirInfo)) ''snapshots'') SnapshotName
         in case os_Lstat e srcDir w of
              (Inl err, w1) \<Rightarrow> if IsNotExist err then (Inr (), w1) else (Inl err, w1)
            | (Inr info, w1) \<Rightarrow>
                (let dstDir = Join tmpKeyspaceDir (tableName (fst tableDirInfo))
                 in andThen (os_MkdirAll e dstDir) (\<lambda>u. hardLinkAll e srcDir dstDir) w1)))"

text \<open>\<open>hardLinkKeyspace\<close>, lines 448 to 499.\<close>

definition hardLinkKeyspace :: "env \<Rightarrow> path \<Rightarrow> path \<Rightarrow> string \<Rightarrow> world \<Rightarrow> unit result \<times> world" where
  "hardLinkKeyspace e srcDataDir dstBaseDir keyspace =
     (let tmpKeyspaceDir = Join dstBaseDir keyspace;
          srcKeyspaceDir = Join srcDataDir keyspace
      in andThen (os_Mkdir e tmpKeyspaceDir) (\<lambda>u.
         andThen (os_Open e srcKeyspaceDir) (\<lambda>dir.
         andThen (Readdir_all e srcKeyspaceDir) (\<lambda>entries.
         forEach (hardLinkTable e srcKeyspaceDir tmpKeyspaceDir) entries))))"

text \<open>
  \<open>Backup\<close>, lines 273 to 446, in three parts: each \<open>defer\<close> encloses what
  follows it. The endpoint accessors are not part of the sources; the result of
  \<open>cassandraInfo\<close> is the input of a run.

  First the body of the loop over the data directory, lines 399 to 422.
\<close>

definition linkKeyspaceDir ::
  "env \<Rightarrow> CassandraInfo \<Rightarrow> string list option \<Rightarrow> string \<times> node \<Rightarrow> world \<Rightarrow> unit result \<times> world" where
  "linkKeyspaceDir e cassandra savedKeyspaces keyspaceDirInfo =
     (if \<not> IsDir (snd keyspaceDirInfo) then succeed ()
      else if \<not> keyspaceSelected savedKeyspaces (ExcludeKeyspaces cassandra) (fst keyspaceDirInfo)
      then succeed ()
      else hardLinkKeyspace e (DataDir cassandra) baseDir (fst keyspaceDirInfo))"

text \<open>Lines 377 to 445: what runs once the staging directory is made.\<close>

definition Backup_stage ::
  "env \<Rightarrow> CassandraInfo \<Rightarrow> string list option \<Rightarrow> world \<Rightarrow> unit result \<times> world" where
  "Backup_stage e cassandra savedKeyspaces =
     andThen (os_Lstat e (DataDir cassandra)) (\<lambda>info.
     if \<not> IsDir info then failWith DataDirNotADirectory
     else
       andThen (os_Open e (DataDir cassandra)) (\<lambda>dir.
       andThen (Readdir_all e (DataDir cassandra)) (\<lambda>entries.
       andThen (forEach (linkKeyspaceDir e cassandra savedKeyspaces) entries) (\<lambda>u.
       andThen (plugin_Exec e (ChownR baseDir)) (\<lambda>u.
       plugin_Exec e (TarCreate (Tar cassandra) baseDir))))))"

text \<open>
  Lines 301 to 367: the keyspace filter, the snapshot, the staging directory and the
  deferred removal of it.
\<close>

definition Backup_snapshot :: "env \<Rightarrow> CassandraInfo \<Rightarrow> world \<Rightarrow> unit result \<times> world" where
  "Backup_snapshot e cassandra0 =
     (case resolveKeyspaces cassandra0 of
        (cassandra, savedKeyspaces) \<Rightarrow>
          andThen (plugin_Exec e (NodetoolSnapshot (BinDir cassandra)
                     (case savedKeyspaces of None \<Rightarrow> [] | Some saved \<Rightarrow> saved))) (\<lambda>u.
          andThen (plugin_Exec e (RmRf baseDir)) (\<lambda>u.
          andThen (os_MkdirAll e baseDir) (\<lambda>u.
          deferred (plugin_Exec e (RmRf baseDir))
            (Backup_stage e cassandra savedKeyspaces)))))"

text \<open>Lines 273 to 299: the clear of a stale snapshot and the deferred clear.\<close>

definition Backup :: "env \<Rightarrow> CassandraInfo result \<Rightarrow> world \<Rightarrow> unit result \<times> world" where
  "Backup e info =
     (case info of
        Inl err \<Rightarrow> failWith err
      | Inr cassandra \<Rightarrow>
          andThen (plugin_Exec e (NodetoolClearSnapshot (BinDir cassandra))) (\<lambda>u.
          deferred (plugin_Exec e (NodetoolClearSnapshot (BinDir cassandra)))
            (Backup_snapshot e cassandra)))"

text \<open>\<open>restoreKeyspace\<close>, lines 623 to 649.\<close>

definition restoreKeyspace :: "env \<Rightarrow> CassandraInfo \<Rightarrow> path \<Rightarrow> world \<Rightarrow> unit result \<times> world" where
  "restoreKeyspace e cassandra keyspaceDirPath =
     andThen (os_Open e keyspaceDirPath) (\<lambda>dir.
     andThen (Readdir_all e keyspaceDirPath) (\<lambda>entries.
     forEach (\<lambda>tableDirInfo.
       if \<not> IsDir (snd tableDirInfo) then succeed ()
       else plugin_Exec e (SSTableLoader (BinDir cassandra) (User cassandra) (Password cassandra)
              (Host cassandra) (Join keyspaceDirPath (fst tableDirInfo))))
       entries))"

text \<open>
  \<open>Restore\<close>, lines 533 to 621. It reads \<open>savedKeyspaces\<close>, which it does not
  declare: the variable is a parameter here. First the body of its loop (lines 592 to
  617), then what the \<open>defer\<close> encloses (lines 571 to 620).
\<close>

definition loadKeyspaceDir ::
  "env \<Rightarrow> CassandraInfo \<Rightarrow> string list option \<Rightarrow> string \<times> node \<Rightarrow> world \<Rightarrow> unit result \<times> world" where
  "loadKeyspaceDir e cassandra savedKeyspaces keyspaceDirInfo =
     (if \<not> IsDir (snd keyspaceDirInfo) then succeed ()
      else if \<not> keyspaceSelected savedKeyspaces (ExcludeKeyspaces cassandra) (fst keyspaceDirInfo)
      then succeed ()
      else restoreKeyspace e cassandra (Join baseDir (fst keyspaceDirInfo)))"

definition Restore_load ::
  "env \<Rightarrow> CassandraInfo \<Rightarrow> string list option \<Rightarrow> world \<Rightarrow> unit result \<times> world" where
  "Restore_load e cassandra savedKeyspaces =
     andThen (plugin_Exec e (TarExtract (Tar cassandra) baseDir)) (\<lambda>u.
     andThen (os_Open e baseDir) (\<lambda>dir.
     andThen (Readdir_all e baseDir) (\<lambda>entries.
     forEach (loadKeyspaceDir e cassandra savedKeyspaces) entries)))"

definition Restore ::
  "env \<Rightarrow> string list option \<Rightarrow> CassandraInfo result \<Rightarrow> world \<Rightarrow> unit result \<times> world" where
  "Restore e savedKeyspaces info =
     (case info of
        Inl err \<Rightarrow> failWith err
      | Inr cassandra \<Rightarrow>
          andThen (plugin_Exec e (RmRf baseDir)) (\<lambda>u.
          andThen (os_MkdirAll e baseDir) (\<lambda>u.
          deferred (plugin_Exec e (RmRf baseDir))
            (Restore_load e cassandra savedKeyspaces))))"

section \<open>The xtrabackup plugin: restore\<close>

record XtraBackupEndpoint =
  Databases :: string
  DataDirX :: path
  UserX :: string
  PasswordX :: string
  Bin :: string
  TargetDir :: path
  TarX :: string

text \<open>
  The function \<open>filepath.Walk\<close> is given (lines 392 to 400):
  \<^verbatim>\<open>
  if err != nil { return err }
  if e := syscall.Chown(path, int(myuid), int(mygid)); e != nil { return e }
  return nil
  \<close>
\<close>

definition chownFn ::
  "env \<Rightarrow> nat \<Rightarrow> nat \<Rightarrow> path \<Rightarrow> error option \<Rightarrow> world \<Rightarrow> unit result \<times> world" where
  "chownFn e myuid mygid p err =
     (case err of Some er \<Rightarrow> failWith er | None \<Rightarrow> syscall_Chown e p myuid mygid)"

text \<open>
  \<open>Restore\<close>, lines 286 to 409, in four parts. Lines 330 to 408: empty the data
  directory, unpack, prepare, move back, set the owners, remove the temporary directory.
\<close>

definition XtraBackup_Restore_load ::
  "env \<Rightarrow> XtraBackupEndpoint \<Rightarrow> nat \<Rightarrow> nat \<Rightarrow> world \<Rightarrow> unit result \<times> world" where
  "XtraBackup_Restore_load e xtrabackup myuid mygid =
     andThen (filepath_Glob e (DataDirX xtrabackup)) (\<lambda>files.
     andThen (forEach (os_RemoveAll e) files) (\<lambda>u.
     andThen (plugin_Exec e (MkdirP (TargetDir xtrabackup))) (\<lambda>u.
     andThen (plugin_Exec e (TarExtract (TarX xtrabackup) (TargetDir xtrabackup))) (\<lambda>u.
     andThen (plugin_Exec e (XtrabackupPrepare (Bin xtrabackup) (TargetDir xtrabackup))) (\<lambda>u.
     andThen (plugin_Exec e (XtrabackupMoveBack (Bin xtrabackup) (TargetDir xtrabackup)
                (DataDirX xtrabackup))) (\<lambda>u.
     andThen (filepath_Walk (DataDirX xtrabackup) (chownFn e myuid mygid)) (\<lambda>u.
     os_RemoveAll e (TargetDir xtrabackup))))))))"

text \<open>
  Lines 316 to 328:
  \<^verbatim>\<open>
  fi, err := os.Lstat(dataDir)
  if err != nil { ...; return err }
  if !fi.IsDir() { ...; return err }
  myuid := fi.Sys().(*syscall.Stat_t).Uid
  mygid := fi.Sys().(*syscall.Stat_t).Gid
  \<close>
\<close>

definition XtraBackup_Restore_datadir ::
  "env \<Rightarrow> XtraBackupEndpoint \<Rightarrow> world \<Rightarrow> unit result \<times> world" where
  "XtraBackup_Restore_datadir e xtrabackup w =
     (case os_Lstat e (DataDirX xtrabackup) w of
        (r, w1) \<Rightarrow>
          (let err = errOf r
           in case r of
                Inl er \<Rightarrow> returnErr err w1
              | Inr fi \<Rightarrow>
                  if \<not> IsDir fi then returnErr err w1
                  else XtraBackup_Restore_load e xtrabackup
                         (fst (owner_of fi)) (snd (owner_of fi)) w1))"

text \<open>
  Lines 298 to 314:
  \<^verbatim>\<open>
  if fi, err := os.Lstat(backupDir); err == nil {
      if fi.IsDir() { err = os.RemoveAll(backupDir) } else { err = os.Remove(backupDir) }
      if err != nil { ...; return err }
  }
  defer func() { os.RemoveAll(backupDir) }()
  \<close>
\<close>

definition XtraBackup_Restore_clean ::
  "env \<Rightarrow> XtraBackupEndpoint \<Rightarrow> world \<Rightarrow> unit result \<times> world" where
  "XtraBackup_Restore_clean e xtrabackup w =
     (let backupDir = TargetDir xtrabackup
      in case os_Lstat e backupDir w of
           (Inl er, w1) \<Rightarrow>
             deferred (os_RemoveAll e backupDir) (XtraBackup_Restore_datadir e xtrabackup) w1
         | (Inr fi, w1) \<Rightarrow>
             andThen (if IsDir fi then os_RemoveAll e backupDir else os_Remove e backupDir) (\<lambda>u.
             deferred (os_RemoveAll e backupDir) (XtraBackup_Restore_datadir e xtrabackup)) w1)"

text \<open>
  Lines 286 to 297:
  \<^verbatim>\<open>
  cmdString := "bash -c \" ps -efw | grep -F mysqld | grep -vE 'grep|mysqld_' &> /dev/null \""
  if err = Exec(cmdString, STDOUT); err == nil {
      ansi.Fprintf(os.Stderr, "... MySQL must be stopped ...")
      return err
  }
  \<close>
\<close>

definition XtraBackup_Restore ::
  "env \<Rightarrow> XtraBackupEndpoint result \<Rightarrow> world \<Rightarrow> unit result \<times> world" where
  "XtraBackup_Restore e info w =
     (case info of
        Inl er \<Rightarrow> failWith er w
      | Inr xtrabackup \<Rightarrow>
          (case plugin_Exec e PsGrepMysqld w of
             (r, w1) \<Rightarrow>
               (let err = errOf r
                in if err = None then returnErr err w1
                   else XtraBackup_Restore_clean e xtrabackup w1)))"

section \<open>Notions for stating and proving the properties\<close>

fun IsSymlink :: "node \<Rightarrow> bool" where
  "IsSymlink (Symlink ow tgt) = True"
| "IsSymlink n = False"

text \<open>A node without what is below it: its kind, its owner, its inode or target.\<close>

fun shallow :: "node \<Rightarrow> node" where
  "shallow (Dir ow es) = Dir ow []"
| "shallow n = n"

fun lookup_opt :: "node option \<Rightarrow> path \<Rightarrow> node option" where
  "lookup_opt None p = None"
| "lookup_opt (Some t) p = lookup t p"

text \<open>\<open>emits P m\<close>: whatever the world, \<open>m\<close> adds to the trace only calls in \<open>P\<close>.\<close>

definition emits :: "(call \<Rightarrow> bool) \<Rightarrow> (world \<Rightarrow> 'a result \<times> world) \<Rightarrow> bool" where
  "emits P m = (\<forall>w. \<exists>evs. trace (snd (m w)) = trace w @ evs \<and> list_all (\<lambda>ev. P (fst ev)) evs)"

definition inStage :: "call \<Rightarrow> bool" where
  "inStage c = (c \<noteq> Exec (RmRf baseDir))"

text \<open>
  The part of a trace from the successful creation of the staging directory on, and
  the attempts to remove the staging tree in a trace.
\<close>

definition staged :: "(call \<times> bool) list \<Rightarrow> (call \<times> bool) list" where
  "staged tr = dropWhile (\<lambda>ev. ev \<noteq> (MkdirAll baseDir, True)) tr"

definition removals :: "(call \<times> bool) list \<Rightarrow> (call \<times> bool) list" where
  "removals tr = filter (\<lambda>ev. fst ev = Exec (RmRf baseDir)) tr"

fun IsLink :: "call \<Rightarrow> bool" where
  "IsLink (Link src dst) = True"
| "IsLink c = False"

text \<open>The calls of \<open>os.Link\<close> in a trace.\<close>

definition links :: "(call \<times> bool) list \<Rightarrow> (call \<times> bool) list" where
  "links tr = filter (\<lambda>ev. IsLink (fst ev)) tr"

text \<open>An entry is settled when it is a symbolic link or has the given owner.\<close>

definition settled :: "owner \<Rightarrow> node \<Rightarrow> path \<Rightarrow> bool" where
  "settled ow t p =
     (case lookup t p of None \<Rightarrow> True | Some n \<Rightarrow> IsSymlink n \<or> owner_of n = ow)"

text \<open>
  The calls the xtrabackup restore makes before it reads the data directory: the
  process search and the clearing of its temporary directory.
\<close>

definition beforeStat :: "path \<Rightarrow> call \<Rightarrow> bool" where
  "beforeStat backupDir c =
     (c = Exec PsGrepMysqld \<or> c = Lstat backupDir \<or> c = RemoveAll backupDir \<or>
      c = Remove backupDir)"

text \<open>
  For the xtrabackup restore: the paths \<open>filepath.Glob\<close> gives for a directory; the
  tree that stands when \<open>xtrabackup --move-back\<close> has run, from the tree in which the
  data directory was read (its children removed, the temporary directory made, the archive
  unpacked, prepared and moved back); and the paths \<open>filepath.Walk\<close> visits from a
  root, in its order.
\<close>

definition children :: "path \<Rightarrow> node \<Rightarrow> path list" where
  "children dir t =
     map (\<lambda>x. dir @ [fst x])
       (sort_key fst (case lookup t dir of None \<Rightarrow> [] | Some d \<Rightarrow> entries_of d))"

definition loaded :: "env \<Rightarrow> XtraBackupEndpoint \<Rightarrow> node \<Rightarrow> node" where
  "loaded e x t =
     exec_effect e (XtrabackupMoveBack (Bin x) (TargetDir x) (DataDirX x))
       (exec_effect e (XtrabackupPrepare (Bin x) (TargetDir x))
          (exec_effect e (TarExtract (TarX x) (TargetDir x))
             (exec_effect e (MkdirP (TargetDir x))
                (fold removeTree (children (DataDirX x) t) t))))"

definition walkPaths :: "path \<Rightarrow> node \<Rightarrow> path list" where
  "walkPaths root t =
     (case lookup t root of None \<Rightarrow> [] | Some n \<Rightarrow> map ((@) root) (subpaths n))"

fun IsChown :: "call \<Rightarrow> bool" where
  "IsChown (Chown p uid gid) = True"
| "IsChown c = False"

text \<open>The calls of \<open>syscall.Chown\<close> in a trace.\<close>

definition chowns :: "(call \<times> bool) list \<Rightarrow> (call \<times> bool) list" where
  "chowns tr = filter (\<lambda>ev. IsChown (fst ev)) tr"

section \<open>Example worlds\<close>

text \<open>A world in which no call fails for an outside reason and no \<open>mysqld\<close> runs.\<close>

definition quiet :: env where
  "quiet = \<lparr>fails_at = (\<lambda>n. False), mysqld_running = False, process_owner = (0, 0),
            vcap_owner = (1000, 1000), store_data = [''data''],
            snapshot_result = (\<lambda>t. t), stdin_archive = [],
            prepare_result = (\<lambda>t. t), move_back_result = (\<lambda>t. t)\<rparr>"


definition cleanupFails :: env where
  "cleanupFails = quiet\<lparr>fails_at := (\<lambda>n. n = 9)\<rparr>"

text \<open>The configuration an endpoint without keyspace settings gives.\<close>

definition exampleInfo :: CassandraInfo where
  "exampleInfo = \<lparr>Host = ''127.0.0.1'', Port = ''9042'', User = ''cassandra'',
          Password = ''cassandra'', IncludeKeyspaces = None,
          ExcludeKeyspaces = DefaultExcludeKeyspaces,
          BinDir = ''bin'', DataDir = [''data''], Tar = ''tar''\<rparr>"

definition emptyData :: node where
  "emptyData = Dir (0, 0) [(''data'', Dir (5, 5) [])]"

text \<open>
  A data directory with the keyspace \<open>app\<close>: two tables with a snapshot (one holds
  a regular file, a symbolic link and a directory), one table without.
\<close>

definition dataTree :: node where
  "dataTree = Dir (0, 0)
     [(''data'', Dir (5, 5)
        [(''app'', Dir (5, 5)
           [(''users-a1b2c3d4'', Dir (5, 5) [(''snapshots'', Dir (5, 5) [(''shield-backup'',
               Dir (5, 5) [(''a.db'', File (5, 5) 1),
                           (''current'', Symlink (5, 5) (Some [''data''])),
                           (''sub'', Dir (5, 5) [(''x'', File (5, 5) 3)])])])]),
            (''users'', Dir (5, 5) [(''snapshots'', Dir (5, 5) [(''shield-backup'',
               Dir (5, 5) [(''b.db'', File (5, 5) 2)])])]),
            (''orders'', Dir (5, 5) [])])]),
      (''stage'', Dir (0, 0) [])]"

text \<open>
  A data directory with the keyspaces \<open>system\<close> and \<open>app\<close>, one table with a
  snapshot in each, and a world in which \<open>nodetool snapshot\<close> leaves this tree.
\<close>

definition systemData :: node where
  "systemData = Dir (0, 0)
     [(''data'', Dir (5, 5)
        [(''system'', Dir (5, 5)
           [(''local-7ad5'', Dir (5, 5) [(''snapshots'', Dir (5, 5) [(''shield-backup'',
               Dir (5, 5) [(''s.db'', File (5, 5) 1)])])])]),
         (''app'', Dir (5, 5)
           [(''orders-1f3c'', Dir (5, 5) [(''snapshots'', Dir (5, 5) [(''shield-backup'',
               Dir (5, 5) [(''a.db'', File (5, 5) 2)])])])])])]"

definition snapshotting :: env where
  "snapshotting = quiet\<lparr>snapshot_result := (\<lambda>t. systemData)\<rparr>"

definition includeApp :: CassandraInfo where
  "includeApp = exampleInfo\<lparr>IncludeKeyspaces := Some [''app''], ExcludeKeyspaces := [''system'']\<rparr>"

definition excludeSystem :: CassandraInfo where
  "excludeSystem = exampleInfo\<lparr>ExcludeKeyspaces := [''system'']\<rparr>"

text \<open>
  A keyspace with a table directory that carries a suffix and one that does not, each
  with a snapshot.
\<close>

definition tablesData :: node where
  "tablesData = Dir (0, 0)
     [(''data'', Dir (5, 5)
        [(''app'', Dir (5, 5)
           [(''users-a1b2c3d4'', Dir (5, 5) [(''snapshots'', Dir (5, 5) [(''shield-backup'',
               Dir (5, 5) [(''u.db'', File (5, 5) 1)])])]),
            (''orders'', Dir (5, 5) [(''snapshots'', Dir (5, 5) [(''shield-backup'',
               Dir (5, 5) [(''o.db'', File (5, 5) 2)])])])])]),
      (''stage'', Dir (0, 0) [])]"

definition snapshotPath :: path where
  "snapshotPath = [''data'', ''app'', ''users-a1b2c3d4'', ''snapshots'', ''shield-backup'']"

text \<open>
  A MySQL host: the data directory belongs to uid 7, gid 8; \<open>xtrabackup\<close> moves
  back, as uid 0, a data file, a symbolic link that points outside the data directory, and
  a symbolic link to that link.
\<close>

definition exampleEndpoint :: XtraBackupEndpoint where
  "exampleEndpoint = \<lparr>Databases = [], DataDirX = [''mysql''], UserX = ''u'',
           PasswordX = ''p'', Bin = ''xtrabackup'', TargetDir = [''tmp'', ''backups''],
           TarX = ''tar''\<rparr>"

definition mysqlTree :: node where
  "mysqlTree = Dir (0, 0)
     [(''mysql'', Dir (7, 8) [(''ibdata1'', File (7, 8) 1)]),
      (''tmp'', Dir (0, 0) []),
      (''etc'', Dir (0, 0) [(''passwd'', File (0, 0) 9)])]"

definition movedBack :: "node \<Rightarrow> node" where
  "movedBack t =
     put [''mysql'', ''chain''] (Symlink (0, 0) (Some [''mysql'', ''lnk'']))
       (put [''mysql'', ''lnk''] (Symlink (0, 0) (Some [''etc'', ''passwd'']))
          (put [''mysql'', ''ibdata1''] (File (0, 0) 10) t))"

definition mysqlStopped :: env where
  "mysqlStopped =
     quiet\<lparr>stdin_archive := [(''ibdata1'', File (0, 0) 10)], move_back_result := movedBack\<rparr>"

text \<open>The same host, when the move back leaves a symbolic link that leads nowhere.\<close>

definition movedBackDangling :: "node \<Rightarrow> node" where
  "movedBackDangling t =
     put [''mysql'', ''gone''] (Symlink (0, 0) None)
       (put [''mysql'', ''ibdata1''] (File (0, 0) 10) t)"

definition mysqlDangling :: env where
  "mysqlDangling = mysqlStopped\<lparr>move_back_result := movedBackDangling\<rparr>"

section \<open>Properties of the table name\<close>

lemma LastIndex_absent: "c \<notin> set s \<Longrightarrow> LastIndex s c = - 1"
  by (induction s) (auto simp: Let_def)

lemma LastIndex_last: "c \<notin> set suf \<Longrightarrow> LastIndex (pre @ c # suf) c = int (length pre)"
proof (induction pre)
  case Nil
  then show ?case by (simp add: LastIndex_absent Let_def)
next
  case (Cons x pre)
  then show ?case by (simp add: Let_def)
qed

text \<open>
  C9. The staged table directory name is the live name with the last \<open>-\<close> and the
  text after it removed; a name with no \<open>-\<close> is unchanged.
\<close>

theorem tableName_strips_last_separator:
  "(CHR ''-'' \<notin> set suf \<longrightarrow> tableName (pre @ CHR ''-'' # suf) = pre) \<and>
   (CHR ''-'' \<notin> set name \<longrightarrow> tableName name = name)"
  by (simp add: tableName_def LastIndex_last LastIndex_absent)

text \<open>
  C9, at the names \<open>users-a1b2c3d4\<close> and \<open>orders\<close>; in the example
  \<open>hardLinkKeyspace\<close> links their snapshot files into the directories \<open>users\<close>
  and \<open>orders\<close> of the keyspace's staging directory.
\<close>

theorem tableName_examples:
  "CHR ''-'' \<notin> set ''a1b2c3d4'' \<and> tableName ''users-a1b2c3d4'' = ''users'' \<and>
   CHR ''-'' \<notin> set ''orders'' \<and> tableName ''orders'' = ''orders'' \<and>
   links (trace (snd (hardLinkKeyspace quiet [''data''] [''stage''] ''app'' (start tablesData)))) =
     [(Link [''data'', ''app'', ''users-a1b2c3d4'', ''snapshots'', ''shield-backup'', ''u.db'']
            [''stage'', ''app'', ''users'', ''u.db''], True),
      (Link [''data'', ''app'', ''orders'', ''snapshots'', ''shield-backup'', ''o.db'']
            [''stage'', ''app'', ''orders'', ''o.db''], True)]"
proof -
  have run: "links (trace (snd (hardLinkKeyspace quiet [''data''] [''stage''] ''app''
      (start tablesData)))) =
     [(Link [''data'', ''app'', ''users-a1b2c3d4'', ''snapshots'', ''shield-backup'', ''u.db'']
            [''stage'', ''app'', ''users'', ''u.db''], True),
      (Link [''data'', ''app'', ''orders'', ''snapshots'', ''shield-backup'', ''o.db'']
            [''stage'', ''app'', ''orders'', ''o.db''], True)]"
    by code_simp
  have names: "CHR ''-'' \<notin> set ''a1b2c3d4'' \<and> tableName ''users-a1b2c3d4'' = ''users'' \<and>
     CHR ''-'' \<notin> set ''orders'' \<and> tableName ''orders'' = ''orders''"
    using tableName_strips_last_separator [of "''a1b2c3d4''" "''users''" "''orders''"]
    by simp
  note n1 = conjunct1 [OF names]
  note n2 = conjunct1 [OF conjunct2 [OF names]]
  note n3 = conjunct1 [OF conjunct2 [OF conjunct2 [OF names]]]
  note n4 = conjunct2 [OF conjunct2 [OF conjunct2 [OF names]]]
  show ?thesis by (intro conjI n1 n2 n3 n4 run)
qed

text \<open>
  C10 (as stated, with its second example). The names \<open>a-b-1\<close> and \<open>a-b\<close> do
  not stage to the same directory: the first stages to \<open>a-b\<close>, the second to \<open>a\<close>.
\<close>

theorem tableName_a_b_differ:
  "tableName ''a-b-1'' = ''a-b'' \<and> tableName ''a-b'' = ''a'' \<and>
   tableName ''a-b-1'' \<noteq> tableName ''a-b''"
  by (simp add: tableName_def Let_def)

lemma users_collide:
  "''users-a1b2c3d4'' \<noteq> ''users'' \<and> tableName ''users-a1b2c3d4'' = tableName ''users''"
  by (simp add: tableName_def Let_def)

lemma collision_run:
  "fst (hardLinkKeyspace quiet [''data''] [''stage''] ''app'' (start dataTree)) = Inr ()"
  by code_simp

lemma collision_staged:
  "lookup (fs (snd (hardLinkKeyspace quiet [''data''] [''stage''] ''app'' (start dataTree))))
      [''stage'', ''app''] =
     Some (Dir (0, 0) [(''users'', Dir (0, 0) [(''a.db'', File (5, 5) 1),
        (''current'', Symlink (5, 5) (Some [''data''])), (''b.db'', File (5, 5) 2)])])"
  by code_simp

lemma collision_mkdir:
  "filter (\<lambda>ev. fst ev = MkdirAll [''stage'', ''app'', ''users''])
     (trace (snd (hardLinkKeyspace quiet [''data''] [''stage''] ''app'' (start dataTree)))) =
   [(MkdirAll [''stage'', ''app'', ''users''], True),
    (MkdirAll [''stage'', ''app'', ''users''], True)]"
  by code_simp

text \<open>
  C10 (amended). The staged name is not injective: two distinct table directory names of
  one keyspace can stage to the same directory, as \<open>users-a1b2c3d4\<close> and \<open>users\<close>
  do. \<open>hardLinkKeyspace\<close> then links the snapshot files of both into that one
  directory, which \<open>os.MkdirAll\<close> creates the first time and accepts the second.
\<close>

theorem tableName_not_injective:
  "(\<exists>a b. a \<noteq> b \<and> tableName a = tableName b) \<and>
   tableName ''users-a1b2c3d4'' = ''users'' \<and> tableName ''users'' = ''users'' \<and>
   fst (hardLinkKeyspace quiet [''data''] [''stage''] ''app'' (start dataTree)) = Inr () \<and>
   filter (\<lambda>ev. fst ev = MkdirAll [''stage'', ''app'', ''users''])
     (trace (snd (hardLinkKeyspace quiet [''data''] [''stage''] ''app'' (start dataTree)))) =
   [(MkdirAll [''stage'', ''app'', ''users''], True),
    (MkdirAll [''stage'', ''app'', ''users''], True)] \<and>
   lookup (fs (snd (hardLinkKeyspace quiet [''data''] [''stage''] ''app'' (start dataTree))))
      [''stage'', ''app''] =
     Some (Dir (0, 0) [(''users'', Dir (0, 0) [(''a.db'', File (5, 5) 1),
        (''current'', Symlink (5, 5) (Some [''data''])), (''b.db'', File (5, 5) 2)])])"
proof (intro conjI)
  show "\<exists>a b. a \<noteq> b \<and> tableName a = tableName b"
    using users_collide by (intro exI)
  show "tableName ''users-a1b2c3d4'' = ''users''" by (simp add: tableName_def Let_def)
  show "tableName ''users'' = ''users''" by (simp add: tableName_def Let_def)
qed (rule collision_run collision_mkdir collision_staged)+

section \<open>Properties of the keyspace filter\<close>

text \<open>
  On a sorted slice the search and the test after it decide membership; this is what
  the filter relies on.
\<close>

lemma Search_partition:
  "(\<forall>k l. k \<le> l \<and> l < n \<and> f k \<longrightarrow> f l) \<Longrightarrow>
   i \<le> j \<Longrightarrow> j \<le> n \<Longrightarrow> (\<forall>k<i. \<not> f k) \<Longrightarrow> (\<forall>k. j \<le> k \<and> k < n \<longrightarrow> f k) \<Longrightarrow>
   Search i j f \<le> n \<and> (\<forall>k < Search i j f. \<not> f k) \<and>
   (\<forall>k. Search i j f \<le> k \<and> k < n \<longrightarrow> f k)"
proof (induction i j f rule: Search.induct)
  case (1 i j f)
  note mono = "1.prems"(1)
  show ?case
  proof (cases "i < j")
    case False
    then have eq: "Search i j f = i" by (subst Search.simps) simp
    from "1.prems" False have "i = j" by simp
    with "1.prems" eq show ?thesis by auto
  next
    case True
    let ?h = "(i + j) div 2"
    from True have h: "i \<le> ?h" "?h < j" by auto
    show ?thesis
    proof (cases "f ?h")
      case False
      with True have eq: "Search i j f = Search (?h + 1) j f"
        by (subst Search.simps) (simp add: Let_def)
      have below: "\<forall>k < ?h + 1. \<not> f k"
      proof (intro allI impI)
        fix k assume "k < ?h + 1"
        then have "k \<le> ?h" by simp
        moreover from h "1.prems"(3) have "?h < n" by simp
        ultimately show "\<not> f k" using mono False by blast
      qed
      from h have "?h + 1 \<le> j" by simp
      from "1.IH"(1) [OF True refl False mono this "1.prems"(3) below "1.prems"(5)]
      show ?thesis unfolding eq .
    next
      case fh: True
      with True have eq: "Search i j f = Search i ?h f"
        by (subst Search.simps) (simp add: Let_def)
      have above: "\<forall>k. ?h \<le> k \<and> k < n \<longrightarrow> f k"
        using mono fh by blast
      from h "1.prems"(3) have hn: "?h \<le> n" by simp
      have "\<not> \<not> f ?h" using fh by simp
      from "1.IH"(2) [OF True refl this mono h(1) hn "1.prems"(4) above]
      show ?thesis unfolding eq .
    qed
  qed
qed

lemma found_sorted:
  assumes "sorted a"
  shows "found a x = (x \<in> set a)"
proof -
  let ?f = "\<lambda>i. x \<le> a ! i"
  let ?r = "Search 0 (length a) ?f"
  have mono: "\<forall>k l. k \<le> l \<and> l < length a \<and> ?f k \<longrightarrow> ?f l"
  proof (intro allI impI, elim conjE)
    fix k l assume kl: "k \<le> l" "l < length a" and xk: "x \<le> a ! k"
    from assms kl have "a ! k \<le> a ! l" by (rule sorted_nth_mono)
    with xk show "x \<le> a ! l" by (rule order_trans)
  qed
  have none: "\<forall>k. length a \<le> k \<and> k < length a \<longrightarrow> ?f k"
    using leD by blast
  have "0 \<le> length a" "length a \<le> length a" "\<forall>k<0::nat. \<not> ?f k"
    by simp_all
  from Search_partition [OF mono this none]
  have r1: "\<forall>k < ?r. \<not> ?f k" and r2: "\<forall>k. ?r \<le> k \<and> k < length a \<longrightarrow> ?f k"
    by blast+
  have fd: "found a x = (?r < length a \<and> a ! ?r = x)"
    unfolding found_def SearchStrings_def Let_def ..
  show ?thesis
  proof
    assume "found a x"
    with fd have "?r < length a" "a ! ?r = x" by blast+
    then show "x \<in> set a" by (metis nth_mem)
  next
    assume "x \<in> set a"
    then obtain m where m: "m < length a" "a ! m = x" unfolding in_set_conv_nth by blast
    have rm: "?r \<le> m"
    proof (rule ccontr)
      assume "\<not> ?r \<le> m"
      then have "m < ?r" by (rule not_le_imp_less)
      with r1 have "\<not> x \<le> a ! m" by blast
      with m(2) show False by blast
    qed
    from rm m(1) have rl: "?r < length a" by (rule le_less_trans)
    with r2 [rule_format, of ?r] have "x \<le> a ! ?r" by simp
    moreover from assms rm m(1) have "a ! ?r \<le> a ! m" by (rule sorted_nth_mono)
    ultimately have "a ! ?r = x" unfolding m(2) by (rule order_antisym [symmetric])
    with rl show "found a x" unfolding fd by (rule conjI)
  qed
qed

lemma keyspaceSelected_sorted:
  "sorted excl \<Longrightarrow> keyspaceSelected None excl keyspace = (keyspace \<notin> set excl)"
  by (simp add: keyspaceSelected_def found_sorted)

lemma includeLoop_keeps: "includeLoop excl incl saved = saved"
  by (induction incl) (simp_all add: Let_def)

lemma includeApp_links_nothing:
  "fst (Backup snapshotting (Inr includeApp) (start systemData)) = Inr () \<and>
   links (trace (snd (Backup snapshotting (Inr includeApp) (start systemData)))) = []"
  by code_simp

text \<open>
  The scenario of the specification: no include list, the exclude list \<open>system\<close>.
  A one-element list is sorted, and the backup links the table of \<open>app\<close> only.
\<close>

lemma excludeSystem_links_app:
  "fst (Backup snapshotting (Inr excludeSystem) (start systemData)) = Inr () \<and>
   links (trace (snd (Backup snapshotting (Inr excludeSystem) (start systemData)))) =
     [(Link [''data'', ''app'', ''orders-1f3c'', ''snapshots'', ''shield-backup'', ''a.db'']
            (baseDir @ [''app'', ''orders'', ''a.db'']), True)]"
  by code_simp

text \<open>
  C1 (what the code does). With an include list, whatever it holds, \<open>savedKeyspaces\<close>
  is the empty list: line 310 does not assign what \<open>append\<close> returns. The empty list
  is not \<open>nil\<close>, so the traversal looks every keyspace directory up in it, finds none
  and links none. In the example the include list is \<open>app\<close> and the exclude list is
  \<open>system\<close>; the backup succeeds and has linked nothing.
\<close>

theorem include_list_yields_empty_set:
  "snd (resolveKeyspaces (cassandra\<lparr>IncludeKeyspaces := Some incl\<rparr>)) = Some [] \<and>
   \<not> keyspaceSelected (Some []) excl keyspace \<and>
   linkKeyspaceDir e cassandra (Some []) (keyspace, info) = succeed () \<and>
   fst (Backup snapshotting (Inr includeApp) (start systemData)) = Inr () \<and>
   links (trace (snd (Backup snapshotting (Inr includeApp) (start systemData)))) = []"
proof -
  have c1: "snd (resolveKeyspaces (cassandra\<lparr>IncludeKeyspaces := Some incl\<rparr>)) = Some []"
    by (simp add: resolveKeyspaces_def includeLoop_keeps Let_def)
  have none: "\<not> keyspaceSelected (Some []) x k" for x k
    by (simp add: keyspaceSelected_def found_def)
  have c2: "\<not> keyspaceSelected (Some []) excl keyspace"
    by (rule none)
  have c3: "linkKeyspaceDir e cassandra (Some []) (keyspace, info) = succeed ()"
    by (simp add: linkKeyspaceDir_def none)
  note c45 = includeApp_links_nothing
  show ?thesis by (intro conjI c1 c2 c3 conjunct1 [OF c45] conjunct2 [OF c45])
qed

lemma default_excludes_link_system:
  "links (trace (snd (Backup snapshotting (Inr exampleInfo) (start systemData)))) =
     [(Link [''data'', ''system'', ''local-7ad5'', ''snapshots'', ''shield-backup'', ''s.db'']
            (baseDir @ [''system'', ''local'', ''s.db'']), True),
      (Link [''data'', ''app'', ''orders-1f3c'', ''snapshots'', ''shield-backup'', ''a.db'']
            (baseDir @ [''app'', ''orders'', ''a.db'']), True)]"
  by code_simp

text \<open>
  C4 (what the code does). Without an include list the exclude list is not sorted: the
  call of \<open>sort.Strings\<close> is inside the branch for an include list. The default
  exclude list is not in order, the binary search misses \<open>system\<close> in it, and the
  traversal links the keyspace directory \<open>system\<close>: in the example the backup links
  the table of \<open>system\<close> as well as that of \<open>app\<close>.
\<close>

theorem unsorted_excludes_miss_system:
  "resolveKeyspaces exampleInfo = (exampleInfo, None) \<and>
   ''system'' \<in> set (ExcludeKeyspaces exampleInfo) \<and>
   keyspaceSelected None (ExcludeKeyspaces exampleInfo) ''system'' \<and>
   linkKeyspaceDir e exampleInfo None (''system'', Dir ow es) =
     hardLinkKeyspace e (DataDir exampleInfo) baseDir ''system'' \<and>
   links (trace (snd (Backup snapshotting (Inr exampleInfo) (start systemData)))) =
     [(Link [''data'', ''system'', ''local-7ad5'', ''snapshots'', ''shield-backup'', ''s.db'']
            (baseDir @ [''system'', ''local'', ''s.db'']), True),
      (Link [''data'', ''app'', ''orders-1f3c'', ''snapshots'', ''shield-backup'', ''a.db'']
            (baseDir @ [''app'', ''orders'', ''a.db'']), True)]"
proof -
  have c1: "resolveKeyspaces exampleInfo = (exampleInfo, None)"
    by (simp add: resolveKeyspaces_def exampleInfo_def)
  have c2: "''system'' \<in> set (ExcludeKeyspaces exampleInfo)"
    by (simp add: exampleInfo_def DefaultExcludeKeyspaces_def)
  have c3: "keyspaceSelected None (ExcludeKeyspaces exampleInfo) ''system''"
    by (simp add: exampleInfo_def DefaultExcludeKeyspaces_def keyspaceSelected_def found_def
        SearchStrings_def Search.simps)
  have c4: "linkKeyspaceDir e exampleInfo None (''system'', Dir ow es) =
     hardLinkKeyspace e (DataDir exampleInfo) baseDir ''system''"
    using c3 by (simp add: linkKeyspaceDir_def)
  show ?thesis by (intro conjI c1 c2 c3 c4 default_excludes_link_system)
qed

section \<open>Facts about the file system\<close>


lemma map_of_store: "map_of (store c y es) d = (if d = c then y else map_of es d)"
  by (cases y) (simp_all add: store_def update_conv' delete_conv')

lemma lookup_Dir: "lookup (Dir ow es) (c # cs) = lookup_opt (map_of es c) cs"
  by (cases "map_of es c") simp_all

lemma lookup_leaf [simp]:
  "lookup (File ow i) (c # cs) = None" "lookup (Symlink ow tgt) (c # cs) = None"
  by simp_all

lemma lookup_opt_Nil: "lookup_opt x [] = x"
  by (cases x) simp_all

lemma alter_remove_self: "lookup_opt (alter p (\<lambda>x. None) x) p = None"
proof (induction p arbitrary: x)
  case Nil
  then show ?case by simp
next
  case (Cons c cs)
  show ?case
  proof (cases x)
    case None
    then show ?thesis by simp
  next
    case (Some t)
    then show ?thesis
      using Cons.IH by (cases t) (simp_all add: lookup_Dir map_of_store del: lookup.simps(2))
  qed
qed

lemma alter_remove_lookup:
  "lookup_opt (alter p (\<lambda>x. None) x) q = Some n' \<Longrightarrow>
   \<exists>n. lookup_opt x q = Some n \<and> shallow n = shallow n'"
proof (induction p arbitrary: x q n')
  case Nil
  then show ?case by simp
next
  case (Cons c cs)
  show ?case
  proof (cases x)
    case None
    with Cons.prems show ?thesis by simp
  next
    case (Some t)
    show ?thesis
    proof (cases t)
      case (Dir ow es)
      show ?thesis
      proof (cases q)
        case Nil
        with Cons.prems Some Dir show ?thesis by auto
      next
        case (Cons d ds)
        with Cons.prems Some Dir Cons.IH [of "map_of es c" ds n'] show ?thesis
          by (simp add: lookup_Dir map_of_store del: lookup.simps(2) split: if_splits)
      qed
    next
      case (File ow i)
      with Cons.prems Some show ?thesis by simp
    next
      case (Symlink ow tgt)
      with Cons.prems Some show ?thesis by simp
    qed
  qed
qed

lemma shallow_with_owner: "shallow (with_owner ow n) = with_owner ow (shallow n)"
  by (cases n) simp_all

lemma lookup_with_owner: "lookup (with_owner ow t) (d # ds) = lookup t (d # ds)"
  by (cases t) simp_all

lemma alter_owner_lookup:
  "map_option shallow (lookup_opt (alter q (map_option (with_owner ow)) x) p) =
   map_option (\<lambda>n. if p = q then with_owner ow n else n) (map_option shallow (lookup_opt x p))"
proof (induction q arbitrary: x p)
  case Nil
  show ?case
  proof (cases x)
    case None
    then show ?thesis by simp
  next
    case (Some t)
    then show ?thesis
      by (cases p)
        (simp_all add: shallow_with_owner lookup_with_owner option.map_ident del: lookup.simps(2))
  qed
next
  case (Cons c cs)
  show ?case
  proof (cases x)
    case None
    then show ?thesis by simp
  next
    case (Some t)
    show ?thesis
    proof (cases t)
      case (Dir ow' es)
      show ?thesis
      proof (cases p)
        case Nil
        with Some Dir show ?thesis by simp
      next
        case (Cons d ds)
        with Some Dir Cons.IH [of "map_of es c" ds] show ?thesis
          by (simp add: lookup_Dir map_of_store option.map_ident del: lookup.simps(2))
      qed
    next
      case (File ow' i)
      with Some show ?thesis by (cases p) (auto simp: option.map_comp comp_def option.map_ident)
    next
      case (Symlink ow' tgt)
      with Some show ?thesis by (cases p) (auto simp: option.map_comp comp_def option.map_ident)
    qed
  qed
qed

lemma removeTree_self: "p \<noteq> [] \<Longrightarrow> lookup (removeTree p t) p = None"
  using alter_remove_self [of p "Some t"]
  by (cases p; cases t) (auto simp: removeTree_def alter_fs_def split: option.splits)

lemma removeTree_lookup:
  "lookup (removeTree p t) q = Some n' \<Longrightarrow> \<exists>n. lookup t q = Some n \<and> shallow n = shallow n'"
  using alter_remove_lookup [of p "Some t" q n']
  by (auto simp: removeTree_def alter_fs_def split: option.splits)

lemma removeTree_absent: "lookup t q = None \<Longrightarrow> lookup (removeTree p t) q = None"
  using removeTree_lookup [of p t q] by (cases "lookup (removeTree p t) q") auto

lemma set_owner_lookup:
  "map_option shallow (lookup (set_owner q ow t) p) =
   map_option (\<lambda>n. if p = q then with_owner ow n else n) (map_option shallow (lookup t p))"
proof -
  have "alter q (map_option (with_owner ow)) (Some t) \<noteq> None"
    by (cases q; cases t) simp_all
  then obtain t' where t': "alter q (map_option (with_owner ow)) (Some t) = Some t'" by auto
  then have "set_owner q ow t = t'" by (simp add: set_owner_def alter_fs_def)
  with alter_owner_lookup [of q ow "Some t" p] t' show ?thesis by simp
qed

section \<open>Facts about traces\<close>


lemma perform_Inr:
  "perform e c sem w = (Inr a, w') \<Longrightarrow>
   \<not> fails_at e (length (trace w)) \<and> sem (fs w) = Inr (a, fs w') \<and>
   trace w' = trace w @ [(c, True)]"
  by (auto simp: perform_def split: if_splits sum.splits)

lemma perform_Inl:
  "perform e c sem w = (Inl err, w') \<Longrightarrow> fs w' = fs w \<and> trace w' = trace w @ [(c, False)]"
  by (auto simp: perform_def split: if_splits sum.splits)

lemma perform_trace:
  "perform e c sem w = (r, w') \<Longrightarrow> trace w' = trace w @ [(c, \<not> isl r)]"
  by (cases r) (auto dest: perform_Inr perform_Inl)

lemma emitsD:
  "emits P m \<Longrightarrow> m w = (r, w') \<Longrightarrow>
   \<exists>evs. trace w' = trace w @ evs \<and> list_all (\<lambda>ev. P (fst ev)) evs"
  unfolding emits_def by (metis snd_conv)

lemma emits_perform: "P c \<Longrightarrow> emits P (perform e c sem)"
  unfolding emits_def
proof
  fix w assume "P c"
  obtain r w' where rw: "perform e c sem w = (r, w')" by (cases "perform e c sem w")
  from perform_trace [OF rw] rw \<open>P c\<close>
  show "\<exists>evs. trace (snd (perform e c sem w)) = trace w @ evs \<and> list_all (\<lambda>ev. P (fst ev)) evs"
    by simp
qed

lemma emits_succeed: "emits P (succeed a)"
  by (simp add: emits_def succeed_def)

lemma emits_failWith: "emits P (failWith err)"
  by (simp add: emits_def failWith_def)

lemma emits_andThen:
  assumes "emits P m" and "\<And>a. emits P (k a)"
  shows "emits P (andThen m k)"
  unfolding emits_def
proof
  fix w
  obtain r w1 where m: "m w = (r, w1)" by (cases "m w")
  from emitsD [OF assms(1) m] obtain evs where
    evs: "trace w1 = trace w @ evs" "list_all (\<lambda>ev. P (fst ev)) evs" by auto
  show "\<exists>evs. trace (snd (andThen m k w)) = trace w @ evs \<and> list_all (\<lambda>ev. P (fst ev)) evs"
  proof (cases r)
    case (Inl err)
    with m evs show ?thesis by (simp add: andThen_def)
  next
    case (Inr a)
    obtain r2 w2 where k: "k a w1 = (r2, w2)" by (cases "k a w1")
    from emitsD [OF assms(2) k] obtain evs2 where
      "trace w2 = trace w1 @ evs2" "list_all (\<lambda>ev. P (fst ev)) evs2" by auto
    with Inr m k evs show ?thesis by (simp add: andThen_def)
  qed
qed

lemma emits_forEach:
  assumes "\<And>x. emits P (body x)"
  shows "emits P (forEach body xs)"
proof (induction xs)
  case Nil
  show ?case by (simp add: emits_def)
next
  case (Cons x xs)
  show ?case
    unfolding emits_def
  proof
    fix w
    obtain r w1 where b: "body x w = (r, w1)" by (cases "body x w")
    from emitsD [OF assms b] obtain evs where
      evs: "trace w1 = trace w @ evs" "list_all (\<lambda>ev. P (fst ev)) evs" by auto
    show "\<exists>evs. trace (snd (forEach body (x # xs) w)) = trace w @ evs \<and>
                list_all (\<lambda>ev. P (fst ev)) evs"
    proof (cases r)
      case (Inl err)
      with b evs show ?thesis by simp
    next
      case (Inr u)
      obtain r2 w2 where k: "forEach body xs w1 = (r2, w2)" by (cases "forEach body xs w1")
      from emitsD [OF Cons.IH k] obtain evs2 where
        "trace w2 = trace w1 @ evs2" "list_all (\<lambda>ev. P (fst ev)) evs2" by auto
      with Inr b k evs show ?thesis by simp
    qed
  qed
qed

lemma emits_hardLinkAll:
  assumes "\<And>p. P (Open p)" "\<And>p. P (Readdir p)" "\<And>p q. P (Link p q)"
  shows "emits P (hardLinkAll e s d)"
  unfolding hardLinkAll_def os_Open_def Readdir_all_def os_Link_def
  by (intro emits_andThen emits_forEach emits_perform assms)
    (simp add: emits_succeed emits_perform assms)

lemma emits_hardLinkTable:
  assumes "\<And>p. P (Open p)" "\<And>p. P (Readdir p)" "\<And>p q. P (Link p q)"
    "\<And>p. P (Lstat p)" "\<And>p. P (MkdirAll p)"
  shows "emits P (hardLinkTable e s d x)"
  unfolding emits_def
proof
  fix w
  let ?srcDir = "Join (Join (Join s (fst x)) ''snapshots'') SnapshotName"
  let ?dstDir = "Join d (tableName (fst x))"
  show "\<exists>evs. trace (snd (hardLinkTable e s d x w)) = trace w @ evs \<and>
              list_all (\<lambda>ev. P (fst ev)) evs"
  proof (cases "IsDir (snd x)")
    case False
    then show ?thesis by (simp add: hardLinkTable_def succeed_def)
  next
    case True
    obtain r w1 where l: "os_Lstat e ?srcDir w = (r, w1)" by (cases "os_Lstat e ?srcDir w")
    then have tr: "trace w1 = trace w @ [(Lstat ?srcDir, \<not> isl r)]"
      unfolding os_Lstat_def by (rule perform_trace)
    show ?thesis
    proof (cases r)
      case (Inl err)
      with True l tr assms(4) show ?thesis by (simp add: hardLinkTable_def Let_def)
    next
      case (Inr info)
      let ?rest = "andThen (os_MkdirAll e ?dstDir) (\<lambda>u. hardLinkAll e ?srcDir ?dstDir)"
      have "emits P ?rest"
        unfolding os_MkdirAll_def
        by (intro emits_andThen emits_perform emits_hardLinkAll assms)
      moreover obtain r2 w2 where k: "?rest w1 = (r2, w2)" by (cases "?rest w1")
      ultimately obtain evs2 where
        "trace w2 = trace w1 @ evs2" "list_all (\<lambda>ev. P (fst ev)) evs2"
        using emitsD by blast
      with Inr True l tr k assms(4) show ?thesis by (simp add: hardLinkTable_def Let_def)
    qed
  qed
qed

lemma emits_hardLinkKeyspace:
  assumes "\<And>p. P (Open p)" "\<And>p. P (Readdir p)" "\<And>p q. P (Link p q)"
    "\<And>p. P (Lstat p)" "\<And>p. P (MkdirAll p)" "\<And>p. P (Mkdir p)"
  shows "emits P (hardLinkKeyspace e s d k)"
  unfolding hardLinkKeyspace_def Let_def os_Mkdir_def os_Open_def Readdir_all_def
  by (intro emits_andThen emits_forEach emits_perform emits_hardLinkTable assms)

lemma inStage_simps [simp]:
  "inStage (Open p)" "inStage (Readdir p)" "inStage (Link p q)" "inStage (Lstat p)"
  "inStage (MkdirAll p)" "inStage (Mkdir p)" "inStage (Exec (ChownR p))"
  "inStage (Exec (TarCreate tar p))" "inStage (Exec (TarExtract tar p))"
  "inStage (Exec (SSTableLoader a b c d p))"
  by (simp_all add: inStage_def)

lemma emits_Backup_stage: "emits inStage (Backup_stage e cassandra saved)"
  unfolding Backup_stage_def linkKeyspaceDir_def os_Lstat_def os_Open_def Readdir_all_def
    plugin_Exec_def
  apply (intro emits_andThen emits_perform)
       apply simp
      apply (simp add: emits_failWith)
      apply (intro impI emits_andThen emits_perform emits_forEach)
  apply (simp_all add: emits_succeed emits_hardLinkKeyspace)
  done

lemma emits_restoreKeyspace: "emits inStage (restoreKeyspace e cassandra p)"
  unfolding restoreKeyspace_def os_Open_def Readdir_all_def plugin_Exec_def
  apply (intro emits_andThen emits_forEach emits_perform)
    apply (simp_all add: emits_succeed emits_perform)
  done

lemma emits_Restore_load: "emits inStage (Restore_load e cassandra saved)"
  unfolding Restore_load_def loadKeyspaceDir_def os_Open_def Readdir_all_def plugin_Exec_def
  apply (intro emits_andThen emits_forEach emits_perform)
    apply (simp_all add: emits_succeed emits_restoreKeyspace)
  done

section \<open>What \<open>hardLinkAll\<close> links\<close>

lemma linkLoop_trace:
  "forEach (\<lambda>x. if IsDir (snd x) then succeed ()
                  else os_Link e (Join s (fst x)) (Join d (fst x))) es w = (Inr u, w') \<Longrightarrow>
   trace w' = trace w @
     map (\<lambda>x. (Link (Join s (fst x)) (Join d (fst x)), True)) (filter (\<lambda>x. \<not> IsDir (snd x)) es)"
proof (induction es arbitrary: w)
  case Nil
  then show ?case by simp
next
  case (Cons x es)
  show ?case
  proof (cases "IsDir (snd x)")
    case True
    with Cons.prems have "forEach (\<lambda>x. if IsDir (snd x) then succeed ()
                  else os_Link e (Join s (fst x)) (Join d (fst x))) es w = (Inr u, w')"
      by (simp add: succeed_def)
    from Cons.IH [OF this] True show ?thesis by simp
  next
    case False
    obtain r1 w1 where l: "os_Link e (Join s (fst x)) (Join d (fst x)) w = (r1, w1)"
      by (cases "os_Link e (Join s (fst x)) (Join d (fst x)) w")
    with Cons.prems False obtain u1 where r1: "r1 = Inr u1"
      by (cases r1) auto
    from l r1 have t1: "trace w1 = trace w @ [(Link (Join s (fst x)) (Join d (fst x)), True)]"
      unfolding os_Link_def by (auto dest: perform_Inr)
    from Cons.prems False l r1 have "forEach (\<lambda>x. if IsDir (snd x) then succeed ()
                  else os_Link e (Join s (fst x)) (Join d (fst x))) es w1 = (Inr u, w')"
      by simp
    from Cons.IH [OF this] t1 False show ?thesis by simp
  qed
qed

text \<open>
  C7 (as stated). In the snapshot directory of the table \<open>users-a1b2c3d4\<close> of the
  example, the entry \<open>current\<close> is a symbolic link; \<open>hardLinkAll\<close> links it into
  the staging directory, where it stands as a symbolic link. The directory \<open>sub\<close> is
  skipped.
\<close>

theorem hardLinkAll_links_symlink:
  "lookup dataTree (snapshotPath @ [''current'']) = Some (Symlink (5, 5) (Some [''data''])) \<and>
   fst (hardLinkAll quiet snapshotPath [''stage''] (start dataTree)) = Inr () \<and>
   trace (snd (hardLinkAll quiet snapshotPath [''stage''] (start dataTree))) =
     [(Open snapshotPath, True), (Readdir snapshotPath, True),
      (Link (snapshotPath @ [''a.db'']) [''stage'', ''a.db''], True),
      (Link (snapshotPath @ [''current'']) [''stage'', ''current''], True)] \<and>
   lookup (fs (snd (hardLinkAll quiet snapshotPath [''stage''] (start dataTree))))
     [''stage'', ''current''] = Some (Symlink (5, 5) (Some [''data'']))"
  by code_simp

text \<open>
  C7 (amended). When \<open>hardLinkAll\<close> returns no error, the source is a directory and
  the run has called \<open>os.Link\<close>, with success, once for each entry directly inside it
  that is not a directory (regular files and symbolic links alike), in directory order,
  from the entry to the entry of the same name in the destination, and for nothing else:
  directories inside the snapshot directory are neither entered nor linked.
\<close>

theorem hardLinkAll_links_non_directories:
  assumes "hardLinkAll e srcDir dstDir w = (Inr u, w')"
  shows "\<exists>ow es. lookup (fs w) srcDir = Some (Dir ow es) \<and>
           trace w' = trace w @ (Open srcDir, True) # (Readdir srcDir, True) #
             map (\<lambda>x. (Link (Join srcDir (fst x)) (Join dstDir (fst x)), True))
               (filter (\<lambda>x. \<not> IsDir (snd x)) es)"
proof -
  obtain r1 w1 where s1: "os_Open e srcDir w = (r1, w1)" by (cases "os_Open e srcDir w")
  with assms obtain u1 where r1: "r1 = Inr u1"
    by (cases r1) (auto simp: hardLinkAll_def andThen_def)
  from s1 r1 have w1: "fs w1 = fs w" "trace w1 = trace w @ [(Open srcDir, True)]"
    unfolding os_Open_def by (auto dest!: perform_Inr split: option.splits)
  obtain r2 w2 where s2: "Readdir_all e srcDir w1 = (r2, w2)"
    by (cases "Readdir_all e srcDir w1")
  with assms s1 r1 obtain entries where r2: "r2 = Inr entries"
    by (cases r2) (auto simp: hardLinkAll_def andThen_def)
  from s2 r2 obtain n where n: "lookup (fs w1) srcDir = Some n" "IsDir n" "entries = entries_of n"
    and w2: "trace w2 = trace w1 @ [(Readdir srcDir, True)]"
    unfolding Readdir_all_def by (auto dest!: perform_Inr split: option.splits if_splits)
  from n obtain ow where dir: "n = Dir ow entries" by (cases n) auto
  from assms s1 r1 s2 r2
  have "forEach (\<lambda>x. if IsDir (snd x) then succeed ()
          else os_Link e (Join srcDir (fst x)) (Join dstDir (fst x))) entries w2 = (Inr u, w')"
    by (simp add: hardLinkAll_def andThen_def)
  from linkLoop_trace [OF this] w1 w2 n(1) dir show ?thesis by simp
qed

text \<open>
  C7, at the snapshot directory of the example: the regular file and the symbolic link
  are linked, the directory is not.
\<close>

theorem hardLinkAll_example:
  "hardLinkAll quiet snapshotPath [''stage''] (start dataTree) =
     (Inr (), snd (hardLinkAll quiet snapshotPath [''stage''] (start dataTree))) \<and>
   trace (snd (hardLinkAll quiet snapshotPath [''stage''] (start dataTree))) =
     [(Open snapshotPath, True), (Readdir snapshotPath, True),
      (Link (snapshotPath @ [''a.db'']) [''stage'', ''a.db''], True),
      (Link (snapshotPath @ [''current'']) [''stage'', ''current''], True)]"
proof -
  have run: "hardLinkAll quiet snapshotPath [''stage''] (start dataTree) =
     (Inr (), snd (hardLinkAll quiet snapshotPath [''stage''] (start dataTree)))"
    by code_simp
  have look: "lookup (fs (start dataTree)) snapshotPath =
     Some (Dir (5, 5) [(''a.db'', File (5, 5) 1),
                       (''current'', Symlink (5, 5) (Some [''data''])),
                       (''sub'', Dir (5, 5) [(''x'', File (5, 5) 3)])])"
    by code_simp
  from hardLinkAll_links_non_directories [OF run] look
  have "trace (snd (hardLinkAll quiet snapshotPath [''stage''] (start dataTree))) =
     trace (start dataTree) @ (Open snapshotPath, True) # (Readdir snapshotPath, True) #
       map (\<lambda>x. (Link (Join snapshotPath (fst x)) (Join [''stage''] (fst x)), True))
         (filter (\<lambda>x. \<not> IsDir (snd x))
            [(''a.db'', File (5, 5) 1), (''current'', Symlink (5, 5) (Some [''data''])),
             (''sub'', Dir (5, 5) [(''x'', File (5, 5) 3)])])"
    by auto
  then show ?thesis using run by (simp add: start_def Join_def)
qed

section \<open>The staging tree of a run\<close>


lemma removals_inStage: "list_all (\<lambda>ev. inStage (fst ev)) evs \<Longrightarrow> removals evs = []"
  by (induction evs) (auto simp: removals_def inStage_def)

lemma removals_append: "removals (xs @ ys) = removals xs @ removals ys"
  by (simp add: removals_def)

lemma baseDir_not_root: "baseDir \<noteq> []"
  by (simp add: baseDir_def)

lemma fold_removeTree_absent:
  "lookup t q = None \<Longrightarrow> lookup (fold removeTree ps t) q = None"
  by (induction ps arbitrary: t) (simp_all add: removeTree_absent)

lemma plugin_Exec_trace:
  "plugin_Exec e c w = (r, w') \<Longrightarrow> trace w' = trace w @ [(Exec c, \<not> isl r)]"
  unfolding plugin_Exec_def by (rule perform_trace)

lemma plugin_Exec_Inr:
  "plugin_Exec e c w = (Inr u, w') \<Longrightarrow> fs w' = exec_effect e c (fs w)"
  unfolding plugin_Exec_def by (auto dest!: perform_Inr split: if_splits)

lemma plugin_Exec_Inl:
  "plugin_Exec e c w = (Inl err, w') \<Longrightarrow> fs w' = fs w"
  unfolding plugin_Exec_def by (auto dest!: perform_Inl)

lemma os_MkdirAll_trace:
  "os_MkdirAll e p w = (r, w') \<Longrightarrow> trace w' = trace w @ [(MkdirAll p, \<not> isl r)]"
  unfolding os_MkdirAll_def by (rule perform_trace)

lemma deferred_removal:
  assumes body: "emits inStage body"
    and run: "deferred (plugin_Exec e (RmRf baseDir)) body w1 = (r, w2)"
  shows "\<exists>evs b. trace w2 = trace w1 @ evs @ [(Exec (RmRf baseDir), b)] \<and>
           list_all (\<lambda>ev. inStage (fst ev)) evs \<and> (b \<longrightarrow> lookup (fs w2) baseDir = None)"
proof -
  obtain rb wb where b: "body w1 = (rb, wb)" by (cases "body w1")
  obtain rr wr where c: "plugin_Exec e (RmRf baseDir) wb = (rr, wr)"
    by (cases "plugin_Exec e (RmRf baseDir) wb")
  from run b c have w2: "w2 = wr" by (simp add: deferred_def)
  from emitsD [OF body b] obtain evs where
    evs: "trace wb = trace w1 @ evs" "list_all (\<lambda>ev. inStage (fst ev)) evs" by auto
  have tr: "trace wr = trace wb @ [(Exec (RmRf baseDir), \<not> isl rr)]"
    using c by (rule plugin_Exec_trace)
  have gone: "lookup (fs wr) baseDir = None" if "\<not> isl rr"
  proof -
    from that obtain u where "rr = Inr u" by (cases rr) auto
    with c have "fs wr = removeTree baseDir (fs wb)"
      by (auto dest: plugin_Exec_Inr)
    then show ?thesis by (simp add: removeTree_self baseDir_not_root)
  qed
  from w2 evs tr gone show ?thesis by auto
qed

lemma staged_removals_shape:
  assumes "list_all (\<lambda>ev. inStage (fst ev)) evs"
    and "list_all (\<lambda>ev. ev \<noteq> (MkdirAll baseDir, True)) pre"
  shows "removals (staged (pre @ (MkdirAll baseDir, True) # evs @ [(Exec (RmRf baseDir), b)])) =
         [(Exec (RmRf baseDir), b)]"
proof -
  have "staged (pre @ (MkdirAll baseDir, True) # evs @ [(Exec (RmRf baseDir), b)]) =
        (MkdirAll baseDir, True) # evs @ [(Exec (RmRf baseDir), b)]"
    using assms(2) unfolding staged_def
    by (induction pre) simp_all
  then show ?thesis
    using removals_inStage [OF assms(1)] by (simp add: removals_append) (simp add: removals_def)
qed

lemma Restore_staging:
  assumes run: "Restore e saved info (start t) = (r, w)"
    and prepared: "(MkdirAll baseDir, True) \<in> set (trace w)"
  shows "\<exists>b. removals (staged (trace w)) = [(Exec (RmRf baseDir), b)] \<and>
             (b \<longrightarrow> lookup (fs w) baseDir = None)"
proof (cases info)
  case (Inl err)
  with run prepared show ?thesis by (auto simp: Restore_def failWith_def start_def)
next
  case (Inr cassandra)
  obtain r1 w1 where s1: "plugin_Exec e (RmRf baseDir) (start t) = (r1, w1)"
    by (cases "plugin_Exec e (RmRf baseDir) (start t)")
  have t1: "trace w1 = [(Exec (RmRf baseDir), \<not> isl r1)]"
    using plugin_Exec_trace [OF s1] by (simp add: start_def)
  show ?thesis
  proof (cases r1)
    case (Inl err)
    with run Inr s1 t1 prepared show ?thesis by (auto simp: Restore_def andThen_def)
  next
    case u1: (Inr u)
    obtain r2 w2 where s2: "os_MkdirAll e baseDir w1 = (r2, w2)"
      by (cases "os_MkdirAll e baseDir w1")
    have t2: "trace w2 = [(Exec (RmRf baseDir), True), (MkdirAll baseDir, \<not> isl r2)]"
      using os_MkdirAll_trace [OF s2] t1 u1 by simp
    show ?thesis
    proof (cases r2)
      case (Inl err)
      with run Inr s1 u1 s2 t2 prepared show ?thesis by (auto simp: Restore_def andThen_def)
    next
      case u2: (Inr u')
      from run Inr s1 u1 s2 u2
      have "deferred (plugin_Exec e (RmRf baseDir)) (Restore_load e cassandra saved) w2 = (r, w)"
        by (simp add: Restore_def andThen_def)
      from deferred_removal [OF emits_Restore_load this] obtain evs b where
        evs: "trace w = trace w2 @ evs @ [(Exec (RmRf baseDir), b)]"
          "list_all (\<lambda>ev. inStage (fst ev)) evs" "b \<longrightarrow> lookup (fs w) baseDir = None"
        by blast
      have "removals (staged ([(Exec (RmRf baseDir), True)] @
              (MkdirAll baseDir, True) # evs @ [(Exec (RmRf baseDir), b)])) =
            [(Exec (RmRf baseDir), b)]"
        by (rule staged_removals_shape [OF evs(2)]) simp
      with evs t2 u2 show ?thesis by auto
    qed
  qed
qed

lemma Backup_snapshot_staging:
  assumes run: "Backup_snapshot e cassandra0 w0 = (r, w)"
  shows "\<exists>new. trace w = trace w0 @ new \<and>
           ((MkdirAll baseDir, True) \<in> set new \<longrightarrow>
             (\<exists>b. removals (staged new) = [(Exec (RmRf baseDir), b)] \<and>
                  (b \<longrightarrow> lookup (fs w) baseDir = None)))"
proof -
  obtain cassandra saved where rk: "resolveKeyspaces cassandra0 = (cassandra, saved)"
    by (cases "resolveKeyspaces cassandra0")
  let ?snap = "NodetoolSnapshot (BinDir cassandra) (case saved of None \<Rightarrow> [] | Some s \<Rightarrow> s)"
  obtain r1 w1 where s1: "plugin_Exec e ?snap w0 = (r1, w1)"
    by (cases "plugin_Exec e ?snap w0")
  have t1: "trace w1 = trace w0 @ [(Exec ?snap, \<not> isl r1)]"
    using plugin_Exec_trace [OF s1] .
  show ?thesis
  proof (cases r1)
    case (Inl err)
    with run rk s1 t1 show ?thesis by (auto simp: Backup_snapshot_def andThen_def)
  next
    case u1: (Inr u)
    obtain r2 w2 where s2: "plugin_Exec e (RmRf baseDir) w1 = (r2, w2)"
      by (cases "plugin_Exec e (RmRf baseDir) w1")
    have t2: "trace w2 = trace w0 @ [(Exec ?snap, True), (Exec (RmRf baseDir), \<not> isl r2)]"
      using plugin_Exec_trace [OF s2] t1 u1 by simp
    show ?thesis
    proof (cases r2)
      case (Inl err)
      with run rk s1 u1 s2 t2 show ?thesis by (auto simp: Backup_snapshot_def andThen_def)
    next
      case u2: (Inr u')
      obtain r3 w3 where s3: "os_MkdirAll e baseDir w2 = (r3, w3)"
        by (cases "os_MkdirAll e baseDir w2")
      have t3: "trace w3 = trace w0 @ [(Exec ?snap, True), (Exec (RmRf baseDir), True),
                  (MkdirAll baseDir, \<not> isl r3)]"
        using os_MkdirAll_trace [OF s3] t2 u2 by simp
      show ?thesis
      proof (cases r3)
        case (Inl err)
        with run rk s1 u1 s2 u2 s3 t3 show ?thesis
          by (auto simp: Backup_snapshot_def andThen_def)
      next
        case u3: (Inr u'')
        from run rk s1 u1 s2 u2 s3 u3
        have "deferred (plugin_Exec e (RmRf baseDir)) (Backup_stage e cassandra saved) w3 = (r, w)"
          by (simp add: Backup_snapshot_def andThen_def)
        from deferred_removal [OF emits_Backup_stage this] obtain evs b where
          evs: "trace w = trace w3 @ evs @ [(Exec (RmRf baseDir), b)]"
            "list_all (\<lambda>ev. inStage (fst ev)) evs" "b \<longrightarrow> lookup (fs w) baseDir = None"
          by blast
        have "removals (staged ([(Exec ?snap, True), (Exec (RmRf baseDir), True)] @
                (MkdirAll baseDir, True) # evs @ [(Exec (RmRf baseDir), b)])) =
              [(Exec (RmRf baseDir), b)]"
          by (rule staged_removals_shape [OF evs(2)]) simp
        with evs t3 u3 show ?thesis by auto
      qed
    qed
  qed
qed

lemma staged_append:
  "(MkdirAll baseDir, True) \<in> set xs \<Longrightarrow> staged (xs @ ys) = staged xs @ ys"
  unfolding staged_def by (rule dropWhile_append1) simp_all

lemma Backup_staging:
  assumes run: "Backup e info (start t) = (r, w)"
    and prepared: "(MkdirAll baseDir, True) \<in> set (trace w)"
  shows "\<exists>b. removals (staged (trace w)) = [(Exec (RmRf baseDir), b)] \<and>
             (b \<longrightarrow> lookup (fs w) baseDir = None)"
proof (cases info)
  case (Inl err)
  with run prepared show ?thesis by (auto simp: Backup_def failWith_def start_def)
next
  case (Inr cassandra)
  let ?clear = "NodetoolClearSnapshot (BinDir cassandra)"
  obtain r1 w1 where s1: "plugin_Exec e ?clear (start t) = (r1, w1)"
    by (cases "plugin_Exec e ?clear (start t)")
  have t1: "trace w1 = [(Exec ?clear, \<not> isl r1)]"
    using plugin_Exec_trace [OF s1] by (simp add: start_def)
  show ?thesis
  proof (cases r1)
    case (Inl err)
    with run Inr s1 t1 prepared show ?thesis by (auto simp: Backup_def andThen_def)
  next
    case u1: (Inr u)
    obtain wa where s2: "Backup_snapshot e cassandra w1 = (r, wa)"
      and s3: "w = snd (plugin_Exec e ?clear wa)"
      using run Inr s1 u1
      by (cases "Backup_snapshot e cassandra w1") (auto simp: Backup_def andThen_def deferred_def)
    obtain r3 where s3': "plugin_Exec e ?clear wa = (r3, w)"
      using s3 by (cases "plugin_Exec e ?clear wa") simp
    from Backup_snapshot_staging [OF s2] obtain new where
      new: "trace wa = trace w1 @ new"
        "(MkdirAll baseDir, True) \<in> set new \<longrightarrow>
           (\<exists>b. removals (staged new) = [(Exec (RmRf baseDir), b)] \<and>
                (b \<longrightarrow> lookup (fs wa) baseDir = None))"
      by blast
    have tw: "trace w = (Exec ?clear, True) # new @ [(Exec ?clear, \<not> isl r3)]"
      using plugin_Exec_trace [OF s3'] new(1) t1 u1 by simp
    with prepared have mem: "(MkdirAll baseDir, True) \<in> set new" by auto
    with new(2) obtain b where
      b: "removals (staged new) = [(Exec (RmRf baseDir), b)]"
        "b \<longrightarrow> lookup (fs wa) baseDir = None" by blast
    have "staged (trace w) = staged new @ [(Exec ?clear, \<not> isl r3)]"
      using tw staged_append [OF mem] by (simp add: staged_def)
    then have rem: "removals (staged (trace w)) = [(Exec (RmRf baseDir), b)]"
      using b(1) by (simp add: removals_append) (simp add: removals_def)
    have "lookup (fs w) baseDir = None" if b
    proof (cases r3)
      case (Inl err)
      with s3' have "fs w = fs wa" by (auto dest: plugin_Exec_Inl)
      with b(2) that show ?thesis by simp
    next
      case (Inr u')
      with s3' have "fs w = clearSnapshots (store_data e) (fs wa)"
        by (auto dest: plugin_Exec_Inr)
      with b(2) that show ?thesis by (simp add: clearSnapshots_def fold_removeTree_absent)
    qed
    with rem show ?thesis by blast
  qed
qed




text \<open>
  C5 (as stated). In the example the deferred removal of the staging tree, the tenth
  call of the backup, fails. The backup returns no error, and the staging directory is
  still there when it has returned.
\<close>

theorem staging_remains_when_removal_fails:
  "fst (Backup cleanupFails (Inr exampleInfo) (start emptyData)) = Inr () \<and>
   trace (snd (Backup cleanupFails (Inr exampleInfo) (start emptyData))) ! 9 =
     (Exec (RmRf baseDir), False) \<and>
   lookup (fs (snd (Backup cleanupFails (Inr exampleInfo) (start emptyData)))) baseDir =
     Some (Dir (1000, 1000) [])"
  by code_simp

text \<open>
  C5 (amended). In every run of \<open>Backup\<close> and of \<open>Restore\<close> that has created the
  staging directory, the removal of the staging tree is attempted exactly once after that,
  on every way out (normal completion or a failing step); when that removal succeeds, the
  staging tree does not exist when the run has returned. (When it fails, the failure is
  printed and the tree may remain.)
\<close>

theorem staging_removed_once:
  "(Backup e info (start t) = (r, w) \<and> (MkdirAll baseDir, True) \<in> set (trace w) \<longrightarrow>
      (\<exists>b. removals (staged (trace w)) = [(Exec (RmRf baseDir), b)] \<and>
           (b \<longrightarrow> lookup (fs w) baseDir = None))) \<and>
   (Restore e savedKeyspaces info (start t) = (r', w') \<and>
      (MkdirAll baseDir, True) \<in> set (trace w') \<longrightarrow>
      (\<exists>b. removals (staged (trace w')) = [(Exec (RmRf baseDir), b)] \<and>
           (b \<longrightarrow> lookup (fs w') baseDir = None)))"
  using Backup_staging [of e info t r w] Restore_staging [of e savedKeyspaces info t r' w']
  by blast

text \<open>C5, for a backup and a restore in the world where nothing fails.\<close>

theorem staging_removed_once_example:
  "Backup quiet (Inr exampleInfo) (start emptyData) =
     (Inr (), snd (Backup quiet (Inr exampleInfo) (start emptyData))) \<and>
   (MkdirAll baseDir, True) \<in> set (trace (snd (Backup quiet (Inr exampleInfo) (start emptyData)))) \<and>
   removals (staged (trace (snd (Backup quiet (Inr exampleInfo) (start emptyData))))) =
     [(Exec (RmRf baseDir), True)] \<and>
   lookup (fs (snd (Backup quiet (Inr exampleInfo) (start emptyData)))) baseDir = None \<and>
   Restore quiet None (Inr exampleInfo) (start emptyData) =
     (Inr (), snd (Restore quiet None (Inr exampleInfo) (start emptyData))) \<and>
   (MkdirAll baseDir, True) \<in>
     set (trace (snd (Restore quiet None (Inr exampleInfo) (start emptyData)))) \<and>
   removals (staged (trace (snd (Restore quiet None (Inr exampleInfo) (start emptyData))))) =
     [(Exec (RmRf baseDir), True)] \<and>
   lookup (fs (snd (Restore quiet None (Inr exampleInfo) (start emptyData)))) baseDir = None"
proof -
  let ?B = "Backup quiet (Inr exampleInfo) (start emptyData)"
  let ?R = "Restore quiet None (Inr exampleInfo) (start emptyData)"
  have b1: "?B = (Inr (), snd ?B)" by code_simp
  have b2: "(MkdirAll baseDir, True) \<in> set (trace (snd ?B))" by code_simp
  have b3: "removals (staged (trace (snd ?B))) = [(Exec (RmRf baseDir), True)]" by code_simp
  have r1: "?R = (Inr (), snd ?R)" by code_simp
  have r2: "(MkdirAll baseDir, True) \<in> set (trace (snd ?R))" by code_simp
  have r3: "removals (staged (trace (snd ?R))) = [(Exec (RmRf baseDir), True)]" by code_simp
  note inst = staging_removed_once [of quiet "Inr exampleInfo" emptyData "Inr ()" "snd ?B"
      None "Inr ()" "snd ?R"]
  from inst b1 b2 obtain b where
    "removals (staged (trace (snd ?B))) = [(Exec (RmRf baseDir), b)]"
    "b \<longrightarrow> lookup (fs (snd ?B)) baseDir = None"
    by blast
  with b3 have b4: "lookup (fs (snd ?B)) baseDir = None" by simp
  from inst r1 r2 obtain b' where
    "removals (staged (trace (snd ?R))) = [(Exec (RmRf baseDir), b')]"
    "b' \<longrightarrow> lookup (fs (snd ?R)) baseDir = None"
    by blast
  with r3 have r4: "lookup (fs (snd ?R)) baseDir = None" by simp
  from b1 b2 b3 b4 r1 r2 r3 r4 show ?thesis by (intro conjI)
qed

section \<open>The xtrabackup restore\<close>


lemma shallow_facts [simp]:
  "IsSymlink (shallow n) = IsSymlink n" "owner_of (shallow n) = owner_of n"
  "IsDir (shallow n) = IsDir n"
  by (cases n; simp)+

lemma with_owner_facts [simp]:
  "IsSymlink (with_owner ow n) = IsSymlink n" "owner_of (with_owner ow n) = ow"
  "IsDir (with_owner ow n) = IsDir n"
  by (cases n; simp)+

lemma shallow_eq_facts:
  "shallow n = shallow m \<Longrightarrow> IsSymlink n = IsSymlink m \<and> owner_of n = owner_of m \<and> IsDir n = IsDir m"
  by (metis shallow_facts)

lemma set_owner_exists:
  "(lookup (set_owner q ow t) p = None) = (lookup t p = None)"
  using set_owner_lookup [of q ow t p] by (metis option.map_disc_iff)

lemma set_owner_settled:
  "settled ow t p \<Longrightarrow> settled ow (set_owner q ow t) p"
proof (cases "lookup (set_owner q ow t) p")
  case None
  then show ?thesis by (simp add: settled_def)
next
  case (Some n')
  assume a: "settled ow t p"
  from Some set_owner_exists [of q ow t p] obtain n where n: "lookup t p = Some n" by auto
  from set_owner_lookup [of q ow t p] Some n
  have "shallow n' = (if p = q then with_owner ow (shallow n) else shallow n)" by simp
  then have "IsSymlink n' = IsSymlink n \<and> (owner_of n' = owner_of n \<or> owner_of n' = ow)"
    by (metis shallow_facts(1,2) with_owner_facts(1,2))
  with a n Some show ?thesis by (auto simp: settled_def)
qed

lemma set_owner_target:
  assumes "lookup t q = Some n"
  shows "\<exists>n'. lookup (set_owner q ow t) q = Some n' \<and> owner_of n' = ow"
proof -
  from set_owner_exists [of q ow t q] assms obtain n' where
    n': "lookup (set_owner q ow t) q = Some n'" by auto
  from set_owner_lookup [of q ow t q] assms n'
  have "shallow n' = with_owner ow (shallow n)" by simp
  then have "owner_of n' = ow" by (metis shallow_facts(2) with_owner_facts(2))
  with n' show ?thesis by simp
qed

lemma lookup_append:
  "lookup t (p @ q) = (case lookup t p of None \<Rightarrow> None | Some n \<Rightarrow> lookup n q)"
  by (induction p arbitrary: t) (auto split: node.splits option.splits)

lemma Nil_in_subpaths: "[] \<in> set (subpaths n)"
  by (cases n) simp_all

lemma subpaths_complete: "lookup n r = Some m \<Longrightarrow> r \<in> set (subpaths n)"
proof (induction r arbitrary: n)
  case Nil
  show ?case by (rule Nil_in_subpaths)
next
  case (Cons c cs)
  then obtain ow es where n: "n = Dir ow es" by (cases n) auto
  with Cons.prems obtain k where k: "map_of es c = Some k" "lookup k cs = Some m"
    by (auto split: option.splits)
  from k(1) have "(c, k) \<in> set es" by (rule map_of_SomeD)
  moreover from Cons.IH [OF k(2)] have "cs \<in> set (subpaths k)" .
  ultimately show ?case using n by force
qed

lemma os_Lstat_Inr:
  "os_Lstat e p w = (Inr n, w') \<Longrightarrow>
   lookup (fs w) p = Some n \<and> fs w' = fs w \<and> trace w' = trace w @ [(Lstat p, True)]"
  unfolding os_Lstat_def by (auto dest!: perform_Inr split: option.splits)

lemma os_Lstat_Inl:
  "os_Lstat e p w = (Inl err, w') \<Longrightarrow> fs w' = fs w \<and> trace w' = trace w @ [(Lstat p, False)]"
  unfolding os_Lstat_def by (auto dest!: perform_Inl)

lemma os_RemoveAll_Inr:
  "os_RemoveAll e p w = (Inr u, w') \<Longrightarrow>
   fs w' = removeTree p (fs w) \<and> trace w' = trace w @ [(RemoveAll p, True)]"
  unfolding os_RemoveAll_def by (auto dest!: perform_Inr)

lemma os_RemoveAll_any:
  "os_RemoveAll e p w = (r, w') \<Longrightarrow>
   (fs w' = fs w \<or> fs w' = removeTree p (fs w)) \<and> trace w' = trace w @ [(RemoveAll p, \<not> isl r)]"
  unfolding os_RemoveAll_def
  by (cases r) (auto dest!: perform_Inr perform_Inl)

lemma os_Remove_Inr:
  "os_Remove e p w = (Inr u, w') \<Longrightarrow>
   fs w' = removeTree p (fs w) \<and> trace w' = trace w @ [(Remove p, True)]"
  unfolding os_Remove_def by (auto dest!: perform_Inr split: option.splits if_splits)

lemma plugin_Exec_Inr_trace:
  "plugin_Exec e c w = (Inr u, w') \<Longrightarrow> trace w' = trace w @ [(Exec c, True)]"
  by (drule plugin_Exec_trace) simp

lemma survives:
  assumes "fs w' = fs w \<or> fs w' = removeTree q (fs w)"
    and "lookup (fs w') p = Some n'"
  shows "\<exists>n. lookup (fs w) p = Some n \<and> shallow n = shallow n'"
  using assms removeTree_lookup [of q "fs w" p n'] by auto

lemma follow_Inr:
  "follow k t p q = Inr q' \<Longrightarrow>
   (\<exists>n. lookup t q = Some n \<and> (IsSymlink n \<or> q' = q)) \<and>
   (\<exists>m. lookup t q' = Some m \<and> \<not> IsSymlink m)"
proof (induction k arbitrary: q)
  case 0
  then show ?case by (auto split: option.splits node.splits)
next
  case (Suc k)
  show ?case
  proof (cases "lookup t q")
    case None
    with Suc.prems show ?thesis by simp
  next
    case (Some n)
    show ?thesis
    proof (cases n)
      case (Symlink ow tgt)
      with Suc.prems Some obtain q1 where q1: "tgt = Some q1" "follow k t p q1 = Inr q'"
        by (cases tgt) auto
      from Suc.IH [OF q1(2)] Some Symlink show ?thesis by auto
    next
      case (File ow i)
      with Suc.prems Some show ?thesis by auto
    next
      case (Dir ow es)
      with Suc.prems Some show ?thesis by auto
    qed
  qed
qed

lemma chownTarget_Inr:
  "chownTarget t p = Inr q \<Longrightarrow>
   (\<exists>n. lookup t p = Some n \<and> (IsSymlink n \<or> q = p)) \<and>
   (\<exists>m. lookup t q = Some m \<and> \<not> IsSymlink m)"
  unfolding chownTarget_def by (rule follow_Inr)

lemma shallow_Symlink: "shallow n = Symlink ow tgt \<Longrightarrow> n = Symlink ow tgt"
  by (cases n) simp_all

lemma set_owner_keeps_link:
  assumes "lookup t q = Some m" and "\<not> IsSymlink m" and "lookup t p = Some (Symlink ow tgt)"
  shows "lookup (set_owner q ow' t) p = Some (Symlink ow tgt)"
proof -
  from assms have "p \<noteq> q" by auto
  with set_owner_lookup [of q ow' t p] assms(3)
  have "map_option shallow (lookup (set_owner q ow' t) p) = Some (Symlink ow tgt)" by simp
  then obtain n' where "lookup (set_owner q ow' t) p = Some n'" "shallow n' = Symlink ow tgt"
    by auto
  then show ?thesis by (simp add: shallow_Symlink)
qed

lemma syscall_Chown_Inr:
  assumes "syscall_Chown e p uid gid w = (Inr u, w')"
  shows "\<exists>q. chownTarget (fs w) p = Inr q \<and> fs w' = set_owner q (uid, gid) (fs w) \<and>
             trace w' = trace w @ [(Chown p uid gid, True)]"
  using assms unfolding syscall_Chown_def
  by (auto dest!: perform_Inr split: sum.splits)

lemma syscall_Chown_Inl:
  "syscall_Chown e p uid gid w = (Inl err, w') \<Longrightarrow>
   fs w' = fs w \<and> trace w' = trace w @ [(Chown p uid gid, False)]"
  unfolding syscall_Chown_def by (auto dest!: perform_Inl)

lemma chown_step:
  assumes "syscall_Chown e p uid gid w = (Inr u, w')"
  shows "settled (uid, gid) (fs w') p \<and>
         (\<forall>p'. settled (uid, gid) (fs w) p' \<longrightarrow> settled (uid, gid) (fs w') p') \<and>
         (\<forall>p'. (lookup (fs w') p' = None) = (lookup (fs w) p' = None)) \<and>
         (\<forall>p' ow tgt. lookup (fs w) p' = Some (Symlink ow tgt) \<longrightarrow>
            lookup (fs w') p' = Some (Symlink ow tgt))"
proof -
  from syscall_Chown_Inr [OF assms] obtain q where
    q: "chownTarget (fs w) p = Inr q" "fs w' = set_owner q (uid, gid) (fs w)" by auto
  from chownTarget_Inr [OF q(1)] obtain n m where
    n: "lookup (fs w) p = Some n" "IsSymlink n \<or> q = p"
    and m: "lookup (fs w) q = Some m" "\<not> IsSymlink m" by auto
  have "settled (uid, gid) (fs w') p"
  proof (cases "IsSymlink n")
    case True
    with n have "settled (uid, gid) (fs w) p" by (simp add: settled_def)
    with q(2) show ?thesis by (simp add: set_owner_settled)
  next
    case False
    with n have "q = p" by simp
    with set_owner_target [OF n(1), of "(uid, gid)"] q(2) show ?thesis
      by (auto simp: settled_def)
  qed
  moreover have "lookup (fs w') p' = Some (Symlink ow tgt)"
    if "lookup (fs w) p' = Some (Symlink ow tgt)" for p' ow tgt
    using set_owner_keeps_link [OF m that] q(2) by simp
  ultimately show ?thesis using q(2) by (simp add: set_owner_settled set_owner_exists)
qed

lemma chown_loop:
  "forEach (\<lambda>p. chownFn e uid gid p None) ps0 w = (r, w') \<Longrightarrow>
   \<exists>ps qs. ps0 = ps @ qs \<and>
     trace w' = trace w @ map (\<lambda>p. (Chown p uid gid, True)) ps @
                map (\<lambda>p. (Chown p uid gid, False)) (take 1 qs) \<and>
     (isl r \<or> qs = []) \<and>
     (\<forall>p \<in> set ps. settled (uid, gid) (fs w') p) \<and>
     (\<forall>p'. settled (uid, gid) (fs w) p' \<longrightarrow> settled (uid, gid) (fs w') p') \<and>
     (\<forall>p'. (lookup (fs w') p' = None) = (lookup (fs w) p' = None)) \<and>
     (\<forall>p' ow tgt. lookup (fs w) p' = Some (Symlink ow tgt) \<longrightarrow>
        lookup (fs w') p' = Some (Symlink ow tgt))"
proof (induction ps0 arbitrary: w)
  case Nil
  then show ?case by auto
next
  case (Cons p ps0)
  obtain r1 w1 where s: "syscall_Chown e p uid gid w = (r1, w1)"
    by (cases "syscall_Chown e p uid gid w")
  show ?case
  proof (cases r1)
    case (Inl err)
    with Cons.prems s have rw: "r = Inl err" "w' = w1" by (simp_all add: chownFn_def)
    from syscall_Chown_Inl [OF s [unfolded Inl]] rw
    have "p # ps0 = [] @ (p # ps0) \<and>
      trace w' = trace w @ map (\<lambda>p. (Chown p uid gid, True)) [] @
                map (\<lambda>p. (Chown p uid gid, False)) (take 1 (p # ps0)) \<and>
      (isl r \<or> p # ps0 = []) \<and>
      (\<forall>p \<in> set []. settled (uid, gid) (fs w') p) \<and>
      (\<forall>p'. settled (uid, gid) (fs w) p' \<longrightarrow> settled (uid, gid) (fs w') p') \<and>
      (\<forall>p'. (lookup (fs w') p' = None) = (lookup (fs w) p' = None)) \<and>
      (\<forall>p' ow tgt. lookup (fs w) p' = Some (Symlink ow tgt) \<longrightarrow>
         lookup (fs w') p' = Some (Symlink ow tgt))"
      by simp
    then show ?thesis by blast
  next
    case (Inr u1)
    from Cons.prems s Inr
    have rest: "forEach (\<lambda>p. chownFn e uid gid p None) ps0 w1 = (r, w')"
      by (simp add: chownFn_def)
    from chown_step [OF s [unfolded Inr]] have step: "settled (uid, gid) (fs w1) p"
      "\<forall>p'. settled (uid, gid) (fs w) p' \<longrightarrow> settled (uid, gid) (fs w1) p'"
      "\<forall>p'. (lookup (fs w1) p' = None) = (lookup (fs w) p' = None)"
      "\<forall>p' ow tgt. lookup (fs w) p' = Some (Symlink ow tgt) \<longrightarrow>
            lookup (fs w1) p' = Some (Symlink ow tgt)"
      by blast+
    from syscall_Chown_Inr [OF s [unfolded Inr]]
    have tr: "trace w1 = trace w @ [(Chown p uid gid, True)]" by blast
    from Cons.IH [OF rest] obtain ps qs where
      ih: "ps0 = ps @ qs"
      "trace w' = trace w1 @ map (\<lambda>p. (Chown p uid gid, True)) ps @
                map (\<lambda>p. (Chown p uid gid, False)) (take 1 qs)"
      "isl r \<or> qs = []"
      "\<forall>p \<in> set ps. settled (uid, gid) (fs w') p"
      "\<forall>p'. settled (uid, gid) (fs w1) p' \<longrightarrow> settled (uid, gid) (fs w') p'"
      "\<forall>p'. (lookup (fs w') p' = None) = (lookup (fs w1) p' = None)"
      "\<forall>p' ow tgt. lookup (fs w1) p' = Some (Symlink ow tgt) \<longrightarrow>
         lookup (fs w') p' = Some (Symlink ow tgt)"
      by blast
    have "p # ps0 = (p # ps) @ qs \<and>
      trace w' = trace w @ map (\<lambda>p. (Chown p uid gid, True)) (p # ps) @
                map (\<lambda>p. (Chown p uid gid, False)) (take 1 qs) \<and>
      (isl r \<or> qs = []) \<and>
      (\<forall>p \<in> set (p # ps). settled (uid, gid) (fs w') p) \<and>
      (\<forall>p'. settled (uid, gid) (fs w) p' \<longrightarrow> settled (uid, gid) (fs w') p') \<and>
      (\<forall>p'. (lookup (fs w') p' = None) = (lookup (fs w) p' = None)) \<and>
      (\<forall>p' ow tgt. lookup (fs w) p' = Some (Symlink ow tgt) \<longrightarrow>
         lookup (fs w') p' = Some (Symlink ow tgt))"
      using ih step tr by simp
    then show ?thesis by blast
  qed
qed

lemma walk_any:
  assumes "filepath_Walk root (chownFn e uid gid) w = (r, w')"
  shows "\<exists>ps qs. walkPaths root (fs w) = ps @ qs \<and>
     trace w' = trace w @ map (\<lambda>p. (Chown p uid gid, True)) ps @
                map (\<lambda>p. (Chown p uid gid, False)) (take 1 qs) \<and>
     (isl r \<or> qs = []) \<and>
     (\<forall>p \<in> set ps. settled (uid, gid) (fs w') p) \<and>
     (\<forall>p'. (lookup (fs w') p' = None) = (lookup (fs w) p' = None)) \<and>
     (\<forall>p' ow tgt. lookup (fs w) p' = Some (Symlink ow tgt) \<longrightarrow>
        lookup (fs w') p' = Some (Symlink ow tgt))"
proof (cases "lookup (fs w) root")
  case None
  with assms have "r = Inl (NotExist root)" "w' = w"
    by (simp_all add: filepath_Walk_def chownFn_def failWith_def)
  with None have "walkPaths root (fs w) = [] @ [] \<and>
     trace w' = trace w @ map (\<lambda>p. (Chown p uid gid, True)) [] @
                map (\<lambda>p. (Chown p uid gid, False)) (take 1 []) \<and>
     (isl r \<or> [] = []) \<and>
     (\<forall>p \<in> set []. settled (uid, gid) (fs w') p) \<and>
     (\<forall>p'. (lookup (fs w') p' = None) = (lookup (fs w) p' = None)) \<and>
     (\<forall>p' ow tgt. lookup (fs w) p' = Some (Symlink ow tgt) \<longrightarrow>
        lookup (fs w') p' = Some (Symlink ow tgt))"
    by (simp add: walkPaths_def)
  then show ?thesis by blast
next
  case (Some n)
  with assms have "forEach (\<lambda>p. chownFn e uid gid p None) (walkPaths root (fs w)) w = (r, w')"
    by (simp add: filepath_Walk_def walkPaths_def)
  from chown_loop [OF this] show ?thesis by blast
qed

lemma andThen_cases:
  assumes "andThen m k w = (r, w')"
  obtains (fail) err where "m w = (Inl err, w')" "r = Inl err"
        | (ok) a w1 where "m w = (Inr a, w1)" "k a w1 = (r, w')"
  using assms by (cases "m w") (auto simp: andThen_def split: sum.splits)

lemma removeAll_loop_any:
  "forEach (os_RemoveAll e) files w = (r, w') \<Longrightarrow>
   (\<exists>evs. trace w' = trace w @ evs \<and> list_all (\<lambda>ev. \<exists>f. fst ev = RemoveAll f) evs) \<and>
   (\<not> isl r \<longrightarrow> trace w' = trace w @ map (\<lambda>f. (RemoveAll f, True)) files \<and>
                 fs w' = fold removeTree files (fs w))"
proof (induction files arbitrary: w)
  case Nil
  then show ?case by auto
next
  case (Cons f files)
  obtain r1 w1 where s: "os_RemoveAll e f w = (r1, w1)" by (cases "os_RemoveAll e f w")
  note t1 = os_RemoveAll_any [OF s]
  show ?case
  proof (cases r1)
    case (Inl err)
    with Cons.prems s have "r = Inl err" "w' = w1" by simp_all
    with t1 Inl show ?thesis by simp
  next
    case (Inr u1)
    with Cons.prems s have rest: "forEach (os_RemoveAll e) files w1 = (r, w')" by simp
    from os_RemoveAll_Inr [OF s [unfolded Inr]]
    have w1: "fs w1 = removeTree f (fs w)" "trace w1 = trace w @ [(RemoveAll f, True)]"
      by simp_all
    from Cons.IH [OF rest] w1 show ?thesis by auto
  qed
qed

lemma filepath_Glob_any:
  "filepath_Glob e dir w = (r, w') \<Longrightarrow>
   trace w' = trace w @ [(Glob dir, \<not> isl r)] \<and>
   (\<forall>files. r = Inr files \<longrightarrow> files = children dir (fs w) \<and> fs w' = fs w)"
  unfolding filepath_Glob_def children_def
  by (cases r) (auto dest!: perform_Inr perform_Inl)

lemma load_reaches_walk:
  assumes load: "XtraBackup_Restore_load e x uid gid w4 = (r, w3)"
    and moved: "(Exec (XtrabackupMoveBack (Bin x) (TargetDir x) (DataDirX x)), True)
                  \<in> set (trace w3)"
    and fresh: "(Exec (XtrabackupMoveBack (Bin x) (TargetDir x) (DataDirX x)), True)
                  \<notin> set (trace w4)"
  shows "\<exists>w10. fs w10 = loaded e x (fs w4) \<and>
     trace w10 = trace w4 @ (Glob (DataDirX x), True) #
        map (\<lambda>f. (RemoveAll f, True)) (children (DataDirX x) (fs w4)) @
        [(Exec (MkdirP (TargetDir x)), True),
         (Exec (TarExtract (TarX x) (TargetDir x)), True),
         (Exec (XtrabackupPrepare (Bin x) (TargetDir x)), True),
         (Exec (XtrabackupMoveBack (Bin x) (TargetDir x) (DataDirX x)), True)] \<and>
     andThen (filepath_Walk (DataDirX x) (chownFn e uid gid)) (\<lambda>u. os_RemoveAll e (TargetDir x))
       w10 = (r, w3)"
proof -
  let ?dd = "DataDirX x" and ?bd = "TargetDir x"
  let ?M = "(Exec (XtrabackupMoveBack (Bin x) ?bd ?dd), True)"
  from load [unfolded XtraBackup_Restore_load_def] show ?thesis
  proof (cases rule: andThen_cases)
    case (fail err)
    from filepath_Glob_any [OF fail(1)] moved fresh show ?thesis by auto
  next
    case g: (ok files w5)
    from filepath_Glob_any [OF g(1)] have
      w5: "trace w5 = trace w4 @ [(Glob ?dd, True)]" "files = children ?dd (fs w4)"
          "fs w5 = fs w4"
      by simp_all
    from g(2) show ?thesis
    proof (cases rule: andThen_cases)
      case (fail err)
      from removeAll_loop_any [OF fail(1)] obtain evs where
        "trace w3 = trace w5 @ evs" "list_all (\<lambda>ev. \<exists>f. fst ev = RemoveAll f) evs" by blast
      with moved fresh w5 show ?thesis by (auto simp: list_all_iff)
    next
      case rm: (ok u6 w6)
      from removeAll_loop_any [OF rm(1)] have
        w6: "trace w6 = trace w5 @ map (\<lambda>f. (RemoveAll f, True)) files"
            "fs w6 = fold removeTree files (fs w5)"
        by simp_all
      have fresh6: "?M \<notin> set (trace w6)" using w6 w5 fresh by auto
      from rm(2) show ?thesis
      proof (cases rule: andThen_cases)
        case (fail err)
        from plugin_Exec_trace [OF fail(1)] moved fresh6 show ?thesis by auto
      next
        case mk: (ok u7 w7)
        note w7 = plugin_Exec_Inr_trace [OF mk(1)] plugin_Exec_Inr [OF mk(1)]
        from mk(2) show ?thesis
        proof (cases rule: andThen_cases)
          case (fail err)
          from plugin_Exec_trace [OF fail(1)] moved fresh6 w7 show ?thesis by auto
        next
          case tx: (ok u8 w8)
          note w8 = plugin_Exec_Inr_trace [OF tx(1)] plugin_Exec_Inr [OF tx(1)]
          from tx(2) show ?thesis
          proof (cases rule: andThen_cases)
            case (fail err)
            from plugin_Exec_trace [OF fail(1)] moved fresh6 w7 w8 show ?thesis by auto
          next
            case pr: (ok u9 w9)
            note w9 = plugin_Exec_Inr_trace [OF pr(1)] plugin_Exec_Inr [OF pr(1)]
            from pr(2) show ?thesis
            proof (cases rule: andThen_cases)
              case (fail err)
              from plugin_Exec_trace [OF fail(1)] moved fresh6 w7 w8 w9 show ?thesis by auto
            next
              case mb: (ok u10 w10)
              note w10 = plugin_Exec_Inr_trace [OF mb(1)] plugin_Exec_Inr [OF mb(1)]
              have "fs w10 = loaded e x (fs w4)"
                using w10(2) w9(2) w8(2) w7(2) w6(2) w5(2,3) by (simp add: loaded_def)
              moreover have "trace w10 = trace w4 @ (Glob ?dd, True) #
                  map (\<lambda>f. (RemoveAll f, True)) (children ?dd (fs w4)) @
                  [(Exec (MkdirP ?bd), True), (Exec (TarExtract (TarX x) ?bd), True),
                   (Exec (XtrabackupPrepare (Bin x) ?bd), True),
                   (Exec (XtrabackupMoveBack (Bin x) ?bd ?dd), True)]"
                using w10(1) w9(1) w8(1) w7(1) w6(1) w5(1,2) by simp
              ultimately show ?thesis using mb(2) by blast
            qed
          qed
        qed
      qed
    qed
  qed
qed

lemma os_Remove_trace:
  "os_Remove e p w = (r, w') \<Longrightarrow> trace w' = trace w @ [(Remove p, \<not> isl r)]"
  unfolding os_Remove_def by (rule perform_trace)

lemma os_Lstat_trace:
  "os_Lstat e p w = (r, w') \<Longrightarrow> trace w' = trace w @ [(Lstat p, \<not> isl r)]"
  unfolding os_Lstat_def by (rule perform_trace)

lemma survives_trans:
  assumes "fs w2 = fs w1 \<or> fs w2 = removeTree q (fs w1)"
    and "fs w3 = fs w2 \<or> fs w3 = removeTree q' (fs w2)"
    and "lookup (fs w3) p = Some n'"
  shows "\<exists>n. lookup (fs w1) p = Some n \<and> shallow n = shallow n'"
proof -
  from survives [OF assms(2,3)] obtain n2 where
    n2: "lookup (fs w2) p = Some n2" "shallow n2 = shallow n'" by blast
  from survives [OF assms(1) n2(1)] n2(2) show ?thesis by auto
qed

lemma walk_complete:
  assumes "lookup t (root @ p) = Some n"
  shows "root @ p \<in> set (walkPaths root t)"
proof -
  from assms obtain dn where dn: "lookup t root = Some dn" "lookup dn p = Some n"
    by (auto simp: lookup_append split: option.splits)
  from subpaths_complete [OF dn(2)] dn(1) show ?thesis by (simp add: walkPaths_def)
qed

text \<open>
  C2 (what the code does). When the process search finds a \<open>mysqld\<close> process,
  \<open>Exec\<close> returns \<open>nil\<close>; \<open>Restore\<close> prints that MySQL must be stopped and
  returns \<open>err\<close>, which is \<open>nil\<close>: the restore reports success. It has made no
  other call and the file system is as it was.
\<close>

theorem restore_while_running_returns_nil:
  "XtraBackup_Restore (e\<lparr>mysqld_running := True, fails_at := (\<lambda>n. False)\<rparr>)
     (Inr xtrabackup) (start t) =
   (Inr (), \<lparr>fs = t, trace = [(Exec PsGrepMysqld, True)]\<rparr>)"
  by (simp add: XtraBackup_Restore_def plugin_Exec_def perform_def start_def returnErr_def)

text \<open>
  C6 (what the code does). With \<open>mysql_datadir\<close> set to a regular file of the
  example, \<open>os.Lstat\<close> succeeds, \<open>fi.IsDir()\<close> is false, and \<open>Restore\<close>
  returns \<open>err\<close>, which is \<open>nil\<close>: the restore reports success. Nothing has been
  unpacked or loaded.
\<close>

theorem datadir_regular_file_returns_nil:
  "XtraBackup_Restore mysqlStopped (Inr (exampleEndpoint\<lparr>DataDirX := [''etc'', ''passwd'']\<rparr>))
     (start mysqlTree) =
   (Inr (), \<lparr>fs = mysqlTree,
              trace = [(Exec PsGrepMysqld, False), (Lstat [''tmp'', ''backups''], False),
                       (Lstat [''etc'', ''passwd''], True),
                       (RemoveAll [''tmp'', ''backups''], True)]\<rparr>)"
  by code_simp

text \<open>
  A symbolic link that leads nowhere stops the walk: the call on its path fails, the
  restore returns that error, and the entries the walk had not reached keep the owner the
  move back gave them.
\<close>

lemma dangling_link_stops_walk:
  "fst (XtraBackup_Restore mysqlDangling (Inr exampleEndpoint) (start mysqlTree)) =
     Inl (NotExist [''mysql'', ''gone'']) \<and>
   chowns (trace (snd (XtraBackup_Restore mysqlDangling (Inr exampleEndpoint) (start mysqlTree)))) =
     [(Chown [''mysql''] 7 8, True), (Chown [''mysql'', ''gone''] 7 8, False)] \<and>
   lookup (fs (snd (XtraBackup_Restore mysqlDangling (Inr exampleEndpoint) (start mysqlTree))))
     [''mysql'', ''ibdata1''] = Some (File (0, 0) 10)"
  by code_simp

text \<open>
  C8 (what the code does). In every restore run in which the move back has succeeded,
  whatever the run returns: the data directory stood in the tree the run started from, and
  its uid and gid were read by \<open>os.Lstat\<close> when nothing but the process search and
  the clearing of the temporary directory had happened; then the children of the data
  directory were removed, the archive unpacked, prepared and moved back; then
  \<open>syscall.Chown\<close> was called with that uid and gid on the paths of the walk of the
  data directory, in the order of the walk, up to the first call that failed; after that
  nothing was called but the removal of the temporary directory. The run returns an error unless
  the walk has reached all its paths. When the run has returned, every entry at or below
  the data directory stands at a path of the walk, and an entry at a path the walk has
  reached has the recorded uid and gid unless it is a symbolic link. A symbolic link that
  the move back left, in the data directory or elsewhere, is still as the move back left
  it, with the owner it had (or has gone with the temporary directory): the call on the
  path of a link changes the owner of the entry at the end of the chain of links, wherever
  that entry stands.
\<close>

theorem restore_chown_follows_links:
  assumes run: "XtraBackup_Restore e (Inr x) (start t) = (r, w)"
    and moved: "(Exec (XtrabackupMoveBack (Bin x) (TargetDir x) (DataDirX x)), True) \<in> set (trace w)"
  shows "\<exists>d pre t0 ps qs rest.
     lookup t (DataDirX x) = Some d \<and>
     list_all (\<lambda>ev. beforeStat (TargetDir x) (fst ev)) pre \<and>
     (t0 = t \<or> t0 = removeTree (TargetDir x) t) \<and>
     walkPaths (DataDirX x) (loaded e x t0) = ps @ qs \<and>
     trace w = pre @ (Lstat (DataDirX x), True) # (Glob (DataDirX x), True) #
        map (\<lambda>f. (RemoveAll f, True)) (children (DataDirX x) t0) @
        [(Exec (MkdirP (TargetDir x)), True),
         (Exec (TarExtract (TarX x) (TargetDir x)), True),
         (Exec (XtrabackupPrepare (Bin x) (TargetDir x)), True),
         (Exec (XtrabackupMoveBack (Bin x) (TargetDir x) (DataDirX x)), True)] @
        map (\<lambda>p. (Chown p (fst (owner_of d)) (snd (owner_of d)), True)) ps @
        map (\<lambda>p. (Chown p (fst (owner_of d)) (snd (owner_of d)), False)) (take 1 qs) @ rest \<and>
     rest \<noteq> [] \<and> list_all (\<lambda>ev. fst ev = RemoveAll (TargetDir x)) rest \<and>
     (isl r \<or> qs = []) \<and>
     (\<forall>p ow tgt. lookup (loaded e x t0) p = Some (Symlink ow tgt) \<longrightarrow>
        lookup (fs w) p = Some (Symlink ow tgt) \<or> lookup (fs w) p = None) \<and>
     (\<forall>p \<in> set ps. settled (owner_of d) (fs w) p) \<and>
     (\<forall>p n. lookup (fs w) (DataDirX x @ p) = Some n \<longrightarrow> DataDirX x @ p \<in> set (ps @ qs))"
proof -
  let ?dd = "DataDirX x" and ?bd = "TargetDir x"
  let ?M = "(Exec (XtrabackupMoveBack (Bin x) ?bd ?dd), True)"
  have notBefore: "?M \<notin> set pre" if "list_all (\<lambda>ev. beforeStat ?bd (fst ev)) pre" for pre
    using that by (auto simp: list_all_iff beforeStat_def)
  \<comment> \<open>the process search\<close>
  obtain r0 w0 where s0: "plugin_Exec e PsGrepMysqld (start t) = (r0, w0)"
    by (cases "plugin_Exec e PsGrepMysqld (start t)")
  have t0: "trace w0 = [(Exec PsGrepMysqld, \<not> isl r0)]"
    using plugin_Exec_trace [OF s0] by (simp add: start_def)
  have "isl r0"
  proof (rule ccontr)
    assume "\<not> isl r0"
    then obtain u0 where "r0 = Inr u0" by (cases r0) auto
    with run s0 have "w = w0" by (simp add: XtraBackup_Restore_def returnErr_def)
    with t0 moved show False by simp
  qed
  then obtain err0 where r0: "r0 = Inl err0" by (cases r0) auto
  with s0 have f0: "fs w0 = t" by (auto dest: plugin_Exec_Inl simp: start_def)
  from run s0 r0 have clean: "XtraBackup_Restore_clean e x w0 = (r, w)"
    by (simp add: XtraBackup_Restore_def)
  \<comment> \<open>the temporary directory\<close>
  have "\<exists>w2. deferred (os_RemoveAll e ?bd) (XtraBackup_Restore_datadir e x) w2 = (r, w) \<and>
          list_all (\<lambda>ev. beforeStat ?bd (fst ev)) (trace w2) \<and>
          (fs w2 = t \<or> fs w2 = removeTree ?bd t)"
  proof -
    obtain rl wl where sl: "os_Lstat e ?bd w0 = (rl, wl)" by (cases "os_Lstat e ?bd w0")
    show ?thesis
    proof (cases rl)
      case (Inl err)
      with sl os_Lstat_Inl [of e ?bd w0 err wl] t0 r0 f0 clean show ?thesis
        by (auto simp: XtraBackup_Restore_clean_def Let_def beforeStat_def)
    next
      case (Inr fi)
      from sl Inr have wl: "fs wl = t" "trace wl = [(Exec PsGrepMysqld, False), (Lstat ?bd, True)]"
        using os_Lstat_Inr [of e ?bd w0 fi wl] t0 r0 f0 by auto
      from clean sl Inr have
        "andThen (if IsDir fi then os_RemoveAll e ?bd else os_Remove e ?bd) (\<lambda>u.
           deferred (os_RemoveAll e ?bd) (XtraBackup_Restore_datadir e x)) wl = (r, w)"
        by (simp add: XtraBackup_Restore_clean_def Let_def)
      then show ?thesis
      proof (cases rule: andThen_cases)
        case (fail err)
        then have "trace w = trace wl @ [(RemoveAll ?bd, False)] \<or>
                   trace w = trace wl @ [(Remove ?bd, False)]"
          by (cases "IsDir fi") (auto dest: os_RemoveAll_any os_Remove_trace)
        with wl moved show ?thesis by auto
      next
        case (ok ur wr)
        from ok(1) wl have "fs wr = removeTree ?bd t \<and>
           list_all (\<lambda>ev. beforeStat ?bd (fst ev)) (trace wr)"
          by (cases "IsDir fi") (auto dest!: os_RemoveAll_Inr os_Remove_Inr simp: beforeStat_def)
        with ok(2) show ?thesis by blast
      qed
    qed
  qed
  then obtain w2 where
    d2: "deferred (os_RemoveAll e ?bd) (XtraBackup_Restore_datadir e x) w2 = (r, w)"
    and pre2: "list_all (\<lambda>ev. beforeStat ?bd (fst ev)) (trace w2)"
    and f2: "fs w2 = t \<or> fs w2 = removeTree ?bd t"
    by blast
  obtain w3 where dd3: "XtraBackup_Restore_datadir e x w2 = (r, w3)"
    and last: "w = snd (os_RemoveAll e ?bd w3)"
    using d2 by (cases "XtraBackup_Restore_datadir e x w2") (auto simp: deferred_def)
  obtain rz where sz: "os_RemoveAll e ?bd w3 = (rz, w)"
    using last by (cases "os_RemoveAll e ?bd w3") simp
  note z = os_RemoveAll_any [OF sz]
  from z moved have moved3: "?M \<in> set (trace w3)" by auto
  \<comment> \<open>the data directory\<close>
  obtain r4 w4 where s4: "os_Lstat e ?dd w2 = (r4, w4)" by (cases "os_Lstat e ?dd w2")
  note t4 = os_Lstat_trace [OF s4]
  have fresh4: "?M \<notin> set (trace w4)" using t4 notBefore [OF pre2] by simp
  have "\<not> isl r4"
  proof
    assume "isl r4"
    then obtain er where "r4 = Inl er" by (cases r4) auto
    with dd3 s4 have "w3 = w4"
      by (simp add: XtraBackup_Restore_datadir_def returnErr_def)
    with moved3 fresh4 show False by simp
  qed
  then obtain fi where r4: "r4 = Inr fi" by (cases r4) auto
  note l4 = os_Lstat_Inr [OF s4 [unfolded r4]]
  have dir: "IsDir fi"
  proof (rule ccontr)
    assume "\<not> IsDir fi"
    with dd3 s4 r4 have "w3 = w4"
      by (simp add: XtraBackup_Restore_datadir_def returnErr_def)
    with moved3 fresh4 show False by simp
  qed
  let ?uid = "fst (owner_of fi)" and ?gid = "snd (owner_of fi)"
  from dir dd3 s4 r4 have load: "XtraBackup_Restore_load e x ?uid ?gid w4 = (r, w3)"
    by (simp add: XtraBackup_Restore_datadir_def)
  from f2 l4 obtain d where d: "lookup t ?dd = Some d" "shallow d = shallow fi"
    using removeTree_lookup [of ?bd t ?dd fi] by auto
  then have od: "owner_of d = owner_of fi" by (metis shallow_facts(2))
  define t0 where "t0 = fs w2"
  from l4 t0_def have f4: "fs w4 = t0" by simp
  from f2 t0_def have t0: "t0 = t \<or> t0 = removeTree ?bd t" by simp
  from load_reaches_walk [OF load moved3 fresh4] f4 obtain w10 where
    f10: "fs w10 = loaded e x t0"
    and t10: "trace w10 = trace w4 @ (Glob ?dd, True) #
        map (\<lambda>f. (RemoveAll f, True)) (children ?dd t0) @
        [(Exec (MkdirP ?bd), True), (Exec (TarExtract (TarX x) ?bd), True),
         (Exec (XtrabackupPrepare (Bin x) ?bd), True),
         (Exec (XtrabackupMoveBack (Bin x) ?bd ?dd), True)]"
    and k10: "andThen (filepath_Walk ?dd (chownFn e ?uid ?gid)) (\<lambda>u. os_RemoveAll e ?bd) w10
                = (r, w3)"
    by auto
  \<comment> \<open>the walk and the removal of the temporary directory\<close>
  have "\<exists>(w11 :: world) ps qs rest.
     walkPaths ?dd (fs w10) = ps @ qs \<and>
     trace w11 = trace w10 @ map (\<lambda>p. (Chown p ?uid ?gid, True)) ps @
                map (\<lambda>p. (Chown p ?uid ?gid, False)) (take 1 qs) \<and>
     (isl r \<or> qs = []) \<and>
     (\<forall>p \<in> set ps. settled (?uid, ?gid) (fs w11) p) \<and>
     (\<forall>p'. (lookup (fs w11) p' = None) = (lookup (fs w10) p' = None)) \<and>
     (\<forall>p' ow tgt. lookup (fs w10) p' = Some (Symlink ow tgt) \<longrightarrow>
        lookup (fs w11) p' = Some (Symlink ow tgt)) \<and>
     trace w = trace w11 @ rest \<and> rest \<noteq> [] \<and>
     list_all (\<lambda>ev. fst ev = RemoveAll ?bd) rest \<and>
     (\<forall>p n'. lookup (fs w) p = Some n' \<longrightarrow>
        (\<exists>n. lookup (fs w11) p = Some n \<and> shallow n = shallow n'))"
  using k10
  proof (cases rule: andThen_cases)
    case (fail err)
    from walk_any [OF fail(1)] obtain ps qs where
      wk: "walkPaths ?dd (fs w10) = ps @ qs"
      "trace w3 = trace w10 @ map (\<lambda>p. (Chown p ?uid ?gid, True)) ps @
                map (\<lambda>p. (Chown p ?uid ?gid, False)) (take 1 qs)"
      "\<forall>p \<in> set ps. settled (?uid, ?gid) (fs w3) p"
      "\<forall>p'. (lookup (fs w3) p' = None) = (lookup (fs w10) p' = None)"
      "\<forall>p' ow tgt. lookup (fs w10) p' = Some (Symlink ow tgt) \<longrightarrow>
        lookup (fs w3) p' = Some (Symlink ow tgt)"
      by blast
    have sv: "\<forall>p n'. lookup (fs w) p = Some n' \<longrightarrow>
        (\<exists>n. lookup (fs w3) p = Some n \<and> shallow n = shallow n')"
      using survives [OF conjunct1 [OF z]] by blast
    have tr: "trace w = trace w3 @ [(RemoveAll ?bd, \<not> isl rz)]" using z by simp
    have "isl r" using fail(2) by simp
    with wk sv tr show ?thesis
      by - (rule exI [of _ w3], rule exI [of _ ps], rule exI [of _ qs],
            rule exI [of _ "[(RemoveAll ?bd, \<not> isl rz)]"],
            (intro conjI; (assumption | simp)))
  next
    case (ok u11 w11)
    from walk_any [OF ok(1)] obtain ps qs where
      wk: "walkPaths ?dd (fs w10) = ps @ qs"
      "trace w11 = trace w10 @ map (\<lambda>p. (Chown p ?uid ?gid, True)) ps @
                map (\<lambda>p. (Chown p ?uid ?gid, False)) (take 1 qs)"
      "qs = []"
      "\<forall>p \<in> set ps. settled (?uid, ?gid) (fs w11) p"
      "\<forall>p'. (lookup (fs w11) p' = None) = (lookup (fs w10) p' = None)"
      "\<forall>p' ow tgt. lookup (fs w10) p' = Some (Symlink ow tgt) \<longrightarrow>
        lookup (fs w11) p' = Some (Symlink ow tgt)"
      by auto
    note y = os_RemoveAll_any [OF ok(2)]
    have sv: "\<forall>p n'. lookup (fs w) p = Some n' \<longrightarrow>
        (\<exists>n. lookup (fs w11) p = Some n \<and> shallow n = shallow n')"
      using survives_trans [OF conjunct1 [OF y] conjunct1 [OF z]] by blast
    have tr: "trace w = trace w11 @ [(RemoveAll ?bd, \<not> isl r), (RemoveAll ?bd, \<not> isl rz)]"
      using y z by simp
    from wk sv tr show ?thesis
      by - (rule exI [of _ w11], rule exI [of _ ps], rule exI [of _ qs],
            rule exI [of _ "[(RemoveAll ?bd, \<not> isl r), (RemoveAll ?bd, \<not> isl rz)]"],
            (intro conjI; (assumption | simp)))
  qed
  then obtain w11 :: world and ps qs rest where
    wp: "walkPaths ?dd (fs w10) = ps @ qs"
    and t11: "trace w11 = trace w10 @ map (\<lambda>p. (Chown p ?uid ?gid, True)) ps @
                map (\<lambda>p. (Chown p ?uid ?gid, False)) (take 1 qs)"
    and stop: "isl r \<or> qs = []"
    and set11: "\<forall>p \<in> set ps. settled (?uid, ?gid) (fs w11) p"
    and same: "\<forall>p'. (lookup (fs w11) p' = None) = (lookup (fs w10) p' = None)"
    and links: "\<forall>p' ow tgt. lookup (fs w10) p' = Some (Symlink ow tgt) \<longrightarrow>
        lookup (fs w11) p' = Some (Symlink ow tgt)"
    and tw: "trace w = trace w11 @ rest" and rest: "rest \<noteq> []"
      "list_all (\<lambda>ev. fst ev = RemoveAll ?bd) rest"
    and sv: "\<forall>p n'. lookup (fs w) p = Some n' \<longrightarrow>
        (\<exists>n. lookup (fs w11) p = Some n \<and> shallow n = shallow n')"
    by blast
  have c_walk: "walkPaths ?dd (loaded e x t0) = ps @ qs" using wp f10 by simp
  have c_trace: "trace w = trace w2 @ (Lstat ?dd, True) # (Glob ?dd, True) #
        map (\<lambda>f. (RemoveAll f, True)) (children ?dd t0) @
        [(Exec (MkdirP ?bd), True), (Exec (TarExtract (TarX x) ?bd), True),
         (Exec (XtrabackupPrepare (Bin x) ?bd), True),
         (Exec (XtrabackupMoveBack (Bin x) ?bd ?dd), True)] @
        map (\<lambda>p. (Chown p (fst (owner_of d)) (snd (owner_of d)), True)) ps @
        map (\<lambda>p. (Chown p (fst (owner_of d)) (snd (owner_of d)), False)) (take 1 qs) @ rest"
    using tw t11 t10 l4 od by simp
  have c_links: "lookup (fs w) p = Some (Symlink ow tgt) \<or> lookup (fs w) p = None"
    if l: "lookup (loaded e x t0) p = Some (Symlink ow tgt)" for p ow tgt
  proof (cases "lookup (fs w) p")
    case None
    then show ?thesis by simp
  next
    case (Some n')
    with sv obtain n where n: "lookup (fs w11) p = Some n" "shallow n = shallow n'" by blast
    from links [rule_format, of p ow tgt] l f10
    have "lookup (fs w11) p = Some (Symlink ow tgt)" by simp
    with n have "shallow n' = Symlink ow tgt" by auto
    then have "n' = Symlink ow tgt" by (rule shallow_Symlink)
    with Some show ?thesis by simp
  qed
  have c_settled: "settled (owner_of d) (fs w) p" if p: "p \<in> set ps" for p
  proof (cases "lookup (fs w) p")
    case None
    then show ?thesis by (simp add: settled_def)
  next
    case (Some n')
    with sv obtain n where n: "lookup (fs w11) p = Some n" "shallow n = shallow n'" by blast
    from set11 p have "settled (?uid, ?gid) (fs w11) p" by blast
    with n(1) od have "IsSymlink n \<or> owner_of n = owner_of d" by (simp add: settled_def)
    with shallow_eq_facts [OF n(2)] Some show ?thesis by (auto simp: settled_def)
  qed
  have c_complete: "?dd @ p \<in> set (ps @ qs)" if n: "lookup (fs w) (?dd @ p) = Some n" for p n
  proof -
    from sv n obtain n11 where "lookup (fs w11) (?dd @ p) = Some n11" by blast
    with same [rule_format, of "?dd @ p"] obtain n10 where
      "lookup (fs w10) (?dd @ p) = Some n10"
      by (cases "lookup (fs w10) (?dd @ p)") simp_all
    from walk_complete [OF this] wp show ?thesis by simp
  qed
  from d(1) pre2 t0 c_walk c_trace rest stop c_links c_settled c_complete
  show ?thesis by blast
qed

text \<open>
  C8, for the restore of the example. The restore returns \<open>nil\<close>. The data file has
  the uid 7 and gid 8 of the data directory. The two symbolic links that the move back left
  in the data directory still belong to uid 0, gid 0, although \<open>syscall.Chown\<close> was
  called, with success, on the path of each; \<open>/etc/passwd\<close>, outside the data
  directory, where both chains of links end, now belongs to uid 7, gid 8.
\<close>

theorem restore_chown_follows_links_example:
  "XtraBackup_Restore mysqlStopped (Inr exampleEndpoint) (start mysqlTree) =
     (Inr (), snd (XtraBackup_Restore mysqlStopped (Inr exampleEndpoint) (start mysqlTree))) \<and>
   (Exec (XtrabackupMoveBack (Bin exampleEndpoint) (TargetDir exampleEndpoint)
      (DataDirX exampleEndpoint)), True) \<in>
     set (trace (snd (XtraBackup_Restore mysqlStopped (Inr exampleEndpoint) (start mysqlTree)))) \<and>
   lookup mysqlTree [''mysql''] = Some (Dir (7, 8) [(''ibdata1'', File (7, 8) 1)]) \<and>
   lookup (fs (snd (XtraBackup_Restore mysqlStopped (Inr exampleEndpoint) (start mysqlTree))))
     [''mysql'', ''ibdata1''] = Some (File (7, 8) 10) \<and>
   lookup (fs (snd (XtraBackup_Restore mysqlStopped (Inr exampleEndpoint) (start mysqlTree))))
     [''mysql'', ''lnk''] = Some (Symlink (0, 0) (Some [''etc'', ''passwd''])) \<and>
   lookup (fs (snd (XtraBackup_Restore mysqlStopped (Inr exampleEndpoint) (start mysqlTree))))
     [''mysql'', ''chain''] = Some (Symlink (0, 0) (Some [''mysql'', ''lnk''])) \<and>
   lookup (fs (snd (XtraBackup_Restore mysqlStopped (Inr exampleEndpoint) (start mysqlTree))))
     [''etc'', ''passwd''] = Some (File (7, 8) 9) \<and>
   chowns
     (trace (snd (XtraBackup_Restore mysqlStopped (Inr exampleEndpoint) (start mysqlTree)))) =
     [(Chown [''mysql''] 7 8, True), (Chown [''mysql'', ''chain''] 7 8, True),
      (Chown [''mysql'', ''ibdata1''] 7 8, True), (Chown [''mysql'', ''lnk''] 7 8, True)]"
proof -
  let ?X = "XtraBackup_Restore mysqlStopped (Inr exampleEndpoint) (start mysqlTree)"
  have h1: "?X = (Inr (), snd ?X)" by code_simp
  have h2: "(Exec (XtrabackupMoveBack (Bin exampleEndpoint) (TargetDir exampleEndpoint)
      (DataDirX exampleEndpoint)), True) \<in> set (trace (snd ?X))"
    by code_simp
  have d: "lookup mysqlTree [''mysql''] = Some (Dir (7, 8) [(''ibdata1'', File (7, 8) 1)])"
    by code_simp
  have f: "lookup (fs (snd ?X)) [''mysql'', ''ibdata1''] = Some (File (7, 8) 10)"
    by code_simp
  have c: "lookup (fs (snd ?X)) [''mysql'', ''chain''] = Some (Symlink (0, 0) (Some [''mysql'', ''lnk'']))"
    by code_simp
  have p: "lookup (fs (snd ?X)) [''etc'', ''passwd''] = Some (File (7, 8) 9)"
    by code_simp
  have there: "lookup (fs (snd ?X)) [''mysql'', ''lnk''] \<noteq> None"
    by code_simp
  have l1: "lookup (loaded mysqlStopped exampleEndpoint mysqlTree) [''mysql'', ''lnk''] =
      Some (Symlink (0, 0) (Some [''etc'', ''passwd'']))"
    by code_simp
  have l2: "lookup (loaded mysqlStopped exampleEndpoint
        (removeTree (TargetDir exampleEndpoint) mysqlTree)) [''mysql'', ''lnk''] =
      Some (Symlink (0, 0) (Some [''etc'', ''passwd'']))"
    by code_simp
  from restore_chown_follows_links [OF h1 h2] obtain t0 where
    t0: "t0 = mysqlTree \<or> t0 = removeTree (TargetDir exampleEndpoint) mysqlTree"
    and lk: "\<forall>p ow tgt. lookup (loaded mysqlStopped exampleEndpoint t0) p = Some (Symlink ow tgt) \<longrightarrow>
        lookup (fs (snd ?X)) p = Some (Symlink ow tgt) \<or> lookup (fs (snd ?X)) p = None"
    by (elim exE conjE) (rule that)
  have "lookup (loaded mysqlStopped exampleEndpoint t0) [''mysql'', ''lnk''] =
      Some (Symlink (0, 0) (Some [''etc'', ''passwd'']))"
  proof (rule disjE [OF t0])
    assume "t0 = mysqlTree"
    then show ?thesis by (simp only: l1)
  next
    assume "t0 = removeTree (TargetDir exampleEndpoint) mysqlTree"
    then show ?thesis by (simp only: l2)
  qed
  from lk [rule_format, OF this]
  have "lookup (fs (snd ?X)) [''mysql'', ''lnk''] = Some (Symlink (0, 0) (Some [''etc'', ''passwd''])) \<or>
        lookup (fs (snd ?X)) [''mysql'', ''lnk''] = None" .
  then have l: "lookup (fs (snd ?X)) [''mysql'', ''lnk''] =
      Some (Symlink (0, 0) (Some [''etc'', ''passwd'']))"
  proof (rule disjE)
    assume "lookup (fs (snd ?X)) [''mysql'', ''lnk''] = None"
    with there show ?thesis by (rule notE)
  qed
  have calls: "chowns (trace (snd ?X)) =
     [(Chown [''mysql''] 7 8, True), (Chown [''mysql'', ''chain''] 7 8, True),
      (Chown [''mysql'', ''ibdata1''] 7 8, True), (Chown [''mysql'', ''lnk''] 7 8, True)]"
    by code_simp
  show ?thesis by (intro conjI h1 h2 d f l c p calls)
qed

end
